theory Spec2Isabelle
  imports Main
begin

section \<open>Strings and numbers of the source language\<close>

text \<open>
  The server is TypeScript. A string of the source is modelled as a \<^typ>\<open>string\<close> whose
  characters are the code units \<open>0x00..0xFF\<close> (ASCII and Latin-1); code units above
  \<open>0xFF\<close> are outside the model. A number of the source is modelled as an \<^typ>\<open>int\<close>:
  the model covers integer-valued arguments, not fractions, \<open>NaN\<close> or infinities.
  An error object is its message.
\<close>

datatype js_error = Error (message: string)

definition quote :: string where
  "quote = [CHR 0x27]"

definition code :: "char \<Rightarrow> nat" where
  "code c = of_char c"

text \<open>\<open>String.prototype.trim\<close>: white space and line terminators in the modelled range.\<close>

definition isWhiteSpace :: "char \<Rightarrow> bool" where
  "isWhiteSpace c = (code c \<in> {0x09, 0x0A, 0x0B, 0x0C, 0x0D, 0x20, 0xA0})"

definition trim :: "string \<Rightarrow> string" where
  "trim s = rev (dropWhile isWhiteSpace (rev (dropWhile isWhiteSpace s)))"

text \<open>The class \<open>\w\<close> of a regular expression without the \<open>u\<close> flag.\<close>

definition isWordChar :: "char \<Rightarrow> bool" where
  "isWordChar c =
     ((0x61 \<le> code c \<and> code c \<le> 0x7A) \<or> (0x41 \<le> code c \<and> code c \<le> 0x5A)
      \<or> (0x30 \<le> code c \<and> code c \<le> 0x39) \<or> code c = 0x5F)"

text \<open>
  Case folding of the \<open>i\<close> flag (without \<open>u\<close>): a character is compared through its
  upper case, and a character above \<open>0x7F\<close> never folds to an ASCII one. Since every
  pattern character below is an ASCII letter, only the folding of ASCII letters matters.
\<close>

definition canonicalize :: "char \<Rightarrow> char" where
  "canonicalize c = (if 0x61 \<le> code c \<and> code c \<le> 0x7A then char_of (code c - 0x20) else c)"

text \<open>\<open>String.prototype.toLowerCase\<close> on the modelled range.\<close>

definition toLowerCaseChar :: "char \<Rightarrow> char" where
  "toLowerCaseChar c =
     (if (0x41 \<le> code c \<and> code c \<le> 0x5A) \<or> (0xC0 \<le> code c \<and> code c \<le> 0xD6)
         \<or> (0xD8 \<le> code c \<and> code c \<le> 0xDE)
      then char_of (code c + 0x20) else c)"

definition toLowerCase :: "string \<Rightarrow> string" where
  "toLowerCase s = map toLowerCaseChar s"

text \<open>\<open>String.prototype.includes\<close>: the argument occurs as a contiguous substring.\<close>

fun includes_str :: "string \<Rightarrow> string \<Rightarrow> bool" where
  "includes_str [] t = (t = [])"
| "includes_str (c # s) t = (take (length t) (c # s) = t \<or> includes_str s t)"

text \<open>
  \<open>Array.prototype.slice(start, end)\<close> on integer arguments: a negative index counts
  from the end, and both are clamped to the array.
\<close>

definition relativeIndex :: "int \<Rightarrow> int \<Rightarrow> nat" where
  "relativeIndex len i = (if i < 0 then nat (max (len + i) 0) else nat (min i len))"

definition slice :: "'a list \<Rightarrow> int \<Rightarrow> int \<Rightarrow> 'a list" where
  "slice xs start fin =
     (let len = int (length xs);
          k = relativeIndex len start;
          final = relativeIndex len fin
      in take (final - k) (drop k xs))"

text \<open>Decimal rendering of a number inside a template string.\<close>

definition digit :: "nat \<Rightarrow> char" where
  "digit d = ''0123456789'' ! d"

fun digits :: "nat \<Rightarrow> string" where
  "digits n = (if n < 10 then [digit n] else digits (n div 10) @ [digit (n mod 10)])"

declare digits.simps [simp del]

section \<open>The filter sanitizer\<close>

text \<open>
  \<open>sanitizeODataFilter\<close>: \<open>filter.replace(/[;\\]/g, '').trim()\<close>, then the test of
  \<open>/\b(drop|delete|insert|update|exec|execute|script|javascript)\b/i\<close>.
\<close>

definition removeDangerousChars :: "string \<Rightarrow> string" where
  "removeDangerousChars s = filter (\<lambda>c. c \<noteq> CHR '';'' \<and> c \<noteq> CHR 0x5C) s"

definition dangerousKeywords :: "string list" where
  "dangerousKeywords =
     [''drop'', ''delete'', ''insert'', ''update'', ''exec'', ''execute'', ''script'', ''javascript'']"

text \<open>The assertion \<open>\b\<close> at position \<open>i\<close>: exactly one side is a word character.\<close>

definition wordBoundary :: "string \<Rightarrow> nat \<Rightarrow> bool" where
  "wordBoundary s i =
     ((0 < i \<and> i \<le> length s \<and> isWordChar (s ! (i - 1))) \<noteq> (i < length s \<and> isWordChar (s ! i)))"

definition matchesAt :: "string \<Rightarrow> string \<Rightarrow> nat \<Rightarrow> bool" where
  "matchesAt kw s i =
     (i + length kw \<le> length s
      \<and> map canonicalize (take (length kw) (drop i s)) = map canonicalize kw)"

definition dangerousPatterns_test :: "string \<Rightarrow> bool" where
  "dangerousPatterns_test s =
     list_ex (\<lambda>i. list_ex (\<lambda>kw. wordBoundary s i \<and> matchesAt kw s i
                                  \<and> wordBoundary s (i + length kw)) dangerousKeywords)
       [0..<Suc (length s)]"

definition sanitizeODataFilter :: "string \<Rightarrow> js_error + string" where
  "sanitizeODataFilter flt =
     (let sanitized = trim (removeDangerousChars flt)
      in if dangerousPatterns_test sanitized
         then Inl (Error ''Invalid filter: potentially dangerous keywords detected'')
         else Inr sanitized)"

text \<open>
  The rejection rule in the words of the specification: a blocklisted keyword occurs as a
  whole word, in any letter case. A whole word is an occurrence with no word character
  directly before it and none directly after it.
\<close>

definition containsWholeWord :: "string \<Rightarrow> string \<Rightarrow> bool" where
  "containsWholeWord kw s =
     (\<exists>a w b. s = a @ w @ b \<and> map canonicalize w = map canonicalize kw
        \<and> (a = [] \<or> \<not> isWordChar (last a)) \<and> (b = [] \<or> \<not> isWordChar (hd b)))"

definition containsBlockedKeyword :: "string \<Rightarrow> bool" where
  "containsBlockedKeyword s = (\<exists>kw \<in> set dangerousKeywords. containsWholeWord kw s)"


section \<open>The result cache\<close>

text \<open>
  Of a roadmap item only the fields the server reads are modelled; every other field
  passes through untouched.
\<close>

record RoadmapItem =
  item_id :: string
  title :: "string option"
  description :: "string option"

record CacheEntry =
  data :: "RoadmapItem list"
  timestamp :: int
  entry_filter :: "string option"

text \<open>
  \<open>const cache = new Map<string, CacheEntry>()\<close>. A \<open>Map\<close> iterates in insertion order,
  so the cache is an association list, oldest insertion first. \<open>set\<close> on a present key
  replaces the value where it stands; on a new key it appends.
\<close>

type_synonym cache = "(string \<times> CacheEntry) list"

definition cache_get :: "cache \<Rightarrow> string \<Rightarrow> CacheEntry option" where
  "cache_get c k = map_of c k"

fun cache_set :: "cache \<Rightarrow> string \<Rightarrow> CacheEntry \<Rightarrow> cache" where
  "cache_set [] k v = [(k, v)]"
| "cache_set ((k', v') # c) k v = (if k' = k then (k, v) # c else (k', v') # cache_set c k v)"

definition cache_size :: "cache \<Rightarrow> nat" where
  "cache_size c = length c"

definition cache_keys :: "cache \<Rightarrow> string list" where
  "cache_keys c = map fst c"

definition cache_delete :: "cache \<Rightarrow> string \<Rightarrow> cache" where
  "cache_delete c k = filter (\<lambda>e. fst e \<noteq> k) c"

definition API_TIMEOUT_MS :: nat where
  "API_TIMEOUT_MS = 30000"

definition MAX_CACHE_AGE_MS :: int where
  "MAX_CACHE_AGE_MS = 5 * 60 * 1000"

definition MAX_RESULTS_LIMIT :: int where
  "MAX_RESULTS_LIMIT = 1000"

text \<open>The cache check of \<open>fetchRoadmapItemsV2\<close>: \<open>now\<close> is the value of \<open>Date.now()\<close>.\<close>

definition cache_lookup :: "cache \<Rightarrow> string \<Rightarrow> int \<Rightarrow> RoadmapItem list option" where
  "cache_lookup c cacheKey now =
     (case cache_get c cacheKey of
        None \<Rightarrow> None
      | Some cached \<Rightarrow> if now - timestamp cached < MAX_CACHE_AGE_MS then Some (data cached) else None)"

text \<open>The cache update of \<open>fetchRoadmapItemsV2\<close>: \<open>cache.set\<close>, then the cleanup above 50 entries.\<close>

definition cache_store :: "cache \<Rightarrow> string \<Rightarrow> CacheEntry \<Rightarrow> cache" where
  "cache_store c cacheKey entry =
     (let c1 = cache_set c cacheKey entry
      in if cache_size c1 > 50
         then (let keys = cache_keys c1
               in if length keys > 0 then cache_delete c1 (keys ! 0) else c1)
         else c1)"

section \<open>The upstream fetcher\<close>

text \<open>
  What the network does is an input of the model. A request either is aborted by the
  timer of \<open>fetchWithTimeout\<close>, fails with another error, or resolves to a response; of a
  response the model keeps the fields the code reads: \<open>ok\<close>, \<open>status\<close>, \<open>statusText\<close>, the
  outcome of \<open>text()\<close> (\<open>None\<close> when it rejects) and the outcome of \<open>json()\<close>.
\<close>

datatype decoded =
    JsonRejected js_error
  | JsonNull
  | JsonObject "RoadmapItem list option"

record http_response =
  ok :: bool
  status :: nat
  statusText :: string
  text_body :: "string option"
  json_body :: decoded

datatype fetch_outcome = AbortError | OtherError js_error | Resolved http_response

definition fetchWithTimeout :: "fetch_outcome \<Rightarrow> nat \<Rightarrow> js_error + http_response" where
  "fetchWithTimeout outcome timeout =
     (case outcome of
        Resolved response \<Rightarrow> Inr response
      | AbortError \<Rightarrow> Inl (Error (''Request timeout after '' @ digits timeout @ ''ms''))
      | OtherError e \<Rightarrow> Inl e)"

text \<open>
  One call of \<open>fetchRoadmapItemsV2\<close> runs in a world that fixes the two readings of the
  clock (at the cache check and at the cache update) and the outcome of the request for
  each request URL. The URL is the base URL, followed by the encoded filter when there is
  one, so a request is identified by its filter. Calls are modelled one at a time.
\<close>

record world =
  clock_at_lookup :: int
  network :: "string option \<Rightarrow> fetch_outcome"
  clock_at_store :: int

text \<open>\<open>filter ? sanitizeODataFilter(filter) : undefined\<close>: the empty string is falsy.\<close>

definition sanitizedFilter_of :: "string option \<Rightarrow> js_error + string option" where
  "sanitizedFilter_of flt =
     (case flt of
        None \<Rightarrow> Inr None
      | Some f \<Rightarrow> if f = [] then Inr None
                  else (case sanitizeODataFilter f of Inl e \<Rightarrow> Inl e | Inr s \<Rightarrow> Inr (Some s)))"

definition cacheKey_of :: "string option \<Rightarrow> string" where
  "cacheKey_of sanitizedFilter =
     (case sanitizedFilter of None \<Rightarrow> ''all'' | Some s \<Rightarrow> if s = [] then ''all'' else s)"

definition request_of :: "string option \<Rightarrow> string option" where
  "request_of sanitizedFilter =
     (case sanitizedFilter of None \<Rightarrow> None | Some s \<Rightarrow> if s = [] then None else Some s)"

text \<open>The body of the \<open>try\<close> block up to the decoded items.\<close>

definition fetch_items :: "fetch_outcome \<Rightarrow> js_error + RoadmapItem list" where
  "fetch_items outcome =
     (case fetchWithTimeout outcome API_TIMEOUT_MS of
        Inl e \<Rightarrow> Inl e
      | Inr response \<Rightarrow>
          if \<not> ok response
          then Inl (Error (''API request failed: '' @ digits (status response) @ '' ''
                           @ statusText response @ '' - ''
                           @ (case text_body response of Some t \<Rightarrow> t | None \<Rightarrow> ''Unknown error'')))
          else (case json_body response of
                  JsonRejected e \<Rightarrow> Inl e
                | JsonNull \<Rightarrow> Inl (Error ''Cannot read properties of null (reading 'value')'')
                | JsonObject v \<Rightarrow> Inr (case v of Some items \<Rightarrow> items | None \<Rightarrow> [])))"

definition fetchRoadmapItemsV2 ::
  "string option \<Rightarrow> world \<Rightarrow> cache \<Rightarrow> (js_error + RoadmapItem list) \<times> cache" where
  "fetchRoadmapItemsV2 flt w c =
     (case sanitizedFilter_of flt of
        Inl e \<Rightarrow> (Inl e, c)
      | Inr sanitizedFilter \<Rightarrow>
          (let cacheKey = cacheKey_of sanitizedFilter
           in case cache_lookup c cacheKey (clock_at_lookup w) of
                Some cached_data \<Rightarrow> (Inr cached_data, c)
              | None \<Rightarrow>
                  (case fetch_items (network w (request_of sanitizedFilter)) of
                     Inl e \<Rightarrow> (Inl e, c)
                   | Inr items \<Rightarrow>
                       (Inr items,
                        cache_store c cacheKey
                          \<lparr>data = items, timestamp = clock_at_store w,
                           entry_filter = sanitizedFilter\<rparr>))))"

section \<open>The tool handlers\<close>

text \<open>
  A handler returns \<open>{content: [{type: 'text', text}], isError}\<close>. The text is either a
  template string or \<open>JSON.stringify\<close> of a value; the model keeps the value, as a tree,
  instead of its rendering. \<open>JSON.stringify\<close> leaves out a property whose value is
  \<open>undefined\<close>.
\<close>

datatype json =
    JNumber int
  | JString string
  | JBoolean bool
  | JItem RoadmapItem
  | JItems "RoadmapItem list"
  | JObject "(string \<times> json) list"

datatype content = JsonText json | PlainText string

record CallToolResult =
  content :: content
  isError :: bool

definition object :: "(string \<times> json option) list \<Rightarrow> json" where
  "object props =
     JObject (concat (map (\<lambda>(k, v). case v of None \<Rightarrow> [] | Some j \<Rightarrow> [(k, j)]) props))"

definition createMCPError :: "string \<Rightarrow> int \<Rightarrow> json \<Rightarrow> json" where
  "createMCPError msg cd dat = JObject [(''code'', JNumber cd), (''message'', JString msg), (''data'', dat)]"

definition default_to :: "'a \<Rightarrow> 'a option \<Rightarrow> 'a" where
  "default_to d v = (case v of None \<Rightarrow> d | Some x \<Rightarrow> x)"

definition success :: "json \<Rightarrow> CallToolResult" where
  "success j = \<lparr>content = JsonText j, isError = False\<rparr>"

definition structured_failure :: "json \<Rightarrow> CallToolResult" where
  "structured_failure j = \<lparr>content = JsonText j, isError = True\<rparr>"

definition text_failure :: "string \<Rightarrow> CallToolResult" where
  "text_failure t = \<lparr>content = PlainText t, isError = True\<rparr>"

definition count :: "'a list \<Rightarrow> json" where
  "count xs = JNumber (int (length xs))"

subsection \<open>\<open>get_roadmap_items\<close>\<close>

definition get_roadmap_items ::
  "int option \<Rightarrow> int option \<Rightarrow> string option \<Rightarrow> world \<Rightarrow> cache \<Rightarrow> CallToolResult \<times> cache" where
  "get_roadmap_items limit_arg offset_arg flt w c =
     (let limit = default_to 100 limit_arg;
          offset = default_to 0 offset_arg;
          validatedLimit = min limit MAX_RESULTS_LIMIT;
          validatedOffset = max 0 offset
      in case fetchRoadmapItemsV2 flt w c of
           (Inr items, c') \<Rightarrow>
             (let paginatedItems = slice items validatedOffset (validatedOffset + validatedLimit)
              in (success (JObject
                    [(''total'', count items),
                     (''returned'', count paginatedItems),
                     (''offset'', JNumber validatedOffset),
                     (''limit'', JNumber validatedLimit),
                     (''hasMore'', JBoolean (validatedOffset + validatedLimit < int (length items))),
                     (''items'', JItems paginatedItems)]), c'))
         | (Inl error, c') \<Rightarrow>
             (structured_failure
                (createMCPError (message error) (- 32000)
                   (object [(''filter'', map_option JString flt),
                            (''limit'', Some (JNumber limit)),
                            (''offset'', Some (JNumber offset))])), c'))"

subsection \<open>\<open>search_roadmap\<close>\<close>

definition matches_keyword :: "string \<Rightarrow> RoadmapItem \<Rightarrow> bool" where
  "matches_keyword searchTerm item =
     ((case title item of None \<Rightarrow> False | Some t \<Rightarrow> includes_str (toLowerCase t) searchTerm)
      \<or> (case description item of None \<Rightarrow> False | Some d \<Rightarrow> includes_str (toLowerCase d) searchTerm))"

definition search_roadmap ::
  "string \<Rightarrow> int option \<Rightarrow> world \<Rightarrow> cache \<Rightarrow> CallToolResult \<times> cache" where
  "search_roadmap keyword limit_arg w c =
     (let limit = default_to 20 limit_arg
      in case fetchRoadmapItemsV2 None w c of
           (Inr items, c') \<Rightarrow>
             (let searchTerm = toLowerCase keyword;
                  filteredItems = slice (filter (matches_keyword searchTerm) items) 0 limit
              in (success (JObject
                    [(''keyword'', JString keyword),
                     (''found'', count filteredItems),
                     (''items'', JItems filteredItems)]), c'))
         | (Inl error, c') \<Rightarrow> (text_failure (''Error: '' @ message error), c'))"

subsection \<open>\<open>get_roadmap_item\<close>\<close>

definition id_filter :: "string \<Rightarrow> string" where
  "id_filter ident = ''id eq '' @ ident"

definition get_roadmap_item :: "string \<Rightarrow> world \<Rightarrow> cache \<Rightarrow> CallToolResult \<times> cache" where
  "get_roadmap_item ident w c =
     (let flt = id_filter ident
      in case fetchRoadmapItemsV2 (Some flt) w c of
           (Inr items, c') \<Rightarrow>
             (case items of
                [] \<Rightarrow> (text_failure (''No roadmap item found with ID: '' @ ident), c')
              | item # _ \<Rightarrow> (success (JItem item), c'))
         | (Inl error, c') \<Rightarrow> (text_failure (''Error: '' @ message error), c'))"

subsection \<open>\<open>filter_by_product\<close>\<close>

text \<open>\<open>product.replace(/'/g, "''")\<close>.\<close>

definition escapeQuotes :: "string \<Rightarrow> string" where
  "escapeQuotes s = concat (map (\<lambda>ch. if ch = CHR 0x27 then [CHR 0x27, CHR 0x27] else [ch]) s)"

definition product_filter :: "string \<Rightarrow> string" where
  "product_filter product =
     (let escapedProduct = escapeQuotes product
      in ''products/any(p:p eq '' @ quote @ escapedProduct @ quote @ '')'')"

definition filter_by_product ::
  "string \<Rightarrow> int option \<Rightarrow> world \<Rightarrow> cache \<Rightarrow> CallToolResult \<times> cache" where
  "filter_by_product product limit_arg w c =
     (let limit = default_to 100 limit_arg
      in case fetchRoadmapItemsV2 (Some (product_filter product)) w c of
           (Inr items, c') \<Rightarrow>
             (let validatedLimit = min limit MAX_RESULTS_LIMIT;
                  limitedItems = slice items 0 validatedLimit
              in (success (JObject
                    [(''product'', JString product),
                     (''total'', count items),
                     (''returned'', count limitedItems),
                     (''hasMore'', JBoolean (length limitedItems < length items)),
                     (''items'', JItems limitedItems)]), c'))
         | (Inl error, c') \<Rightarrow>
             (structured_failure
                (createMCPError (message error) (- 32000)
                   (object [(''product'', Some (JString product)),
                            (''limit'', Some (JNumber limit))])), c'))"

subsection \<open>\<open>filter_by_release_phase\<close>, \<open>filter_by_status\<close>, \<open>filter_by_date\<close>, \<open>filter_roadmap\<close>\<close>

text \<open>
  The four handlers share one shape: fetch with a filter, \<open>items.slice(0, limit)\<close>, and an
  envelope that echoes the arguments before \<open>total\<close>, \<open>returned\<close> and \<open>items\<close>.
\<close>

definition limited_envelope ::
  "(string \<times> json) list \<Rightarrow> string \<Rightarrow> int \<Rightarrow> world \<Rightarrow> cache \<Rightarrow> CallToolResult \<times> cache" where
  "limited_envelope echo flt limit w c =
     (case fetchRoadmapItemsV2 (Some flt) w c of
        (Inr items, c') \<Rightarrow>
          (let limitedItems = slice items 0 limit
           in (success (JObject
                 (echo @ [(''total'', count items),
                          (''returned'', count limitedItems),
                          (''items'', JItems limitedItems)])), c'))
      | (Inl error, c') \<Rightarrow> (text_failure (''Error: '' @ message error), c'))"

datatype Phase = General_Availability | Public_Preview | In_Development | Rolling_Out

fun phase_string :: "Phase \<Rightarrow> string" where
  "phase_string General_Availability = ''General Availability''"
| "phase_string Public_Preview = ''Public Preview''"
| "phase_string In_Development = ''In Development''"
| "phase_string Rolling_Out = ''Rolling Out''"

definition phase_filter :: "Phase \<Rightarrow> string" where
  "phase_filter phase = ''releaseRings/any(r:r eq '' @ quote @ phase_string phase @ quote @ '')''"

definition filter_by_release_phase ::
  "Phase \<Rightarrow> int option \<Rightarrow> world \<Rightarrow> cache \<Rightarrow> CallToolResult \<times> cache" where
  "filter_by_release_phase phase limit_arg w c =
     limited_envelope [(''phase'', JString (phase_string phase))]
       (phase_filter phase) (default_to 100 limit_arg) w c"

datatype Status = In_development | Rolling_out | Launched

fun status_string :: "Status \<Rightarrow> string" where
  "status_string In_development = ''In development''"
| "status_string Rolling_out = ''Rolling out''"
| "status_string Launched = ''Launched''"

definition status_filter :: "Status \<Rightarrow> string" where
  "status_filter st = ''status eq '' @ quote @ status_string st @ quote"

definition filter_by_status ::
  "Status \<Rightarrow> int option \<Rightarrow> world \<Rightarrow> cache \<Rightarrow> CallToolResult \<times> cache" where
  "filter_by_status st limit_arg w c =
     limited_envelope [(''status'', JString (status_string st))]
       (status_filter st) (default_to 100 limit_arg) w c"

datatype DateType = generalAvailability | preview

fun dateType_string :: "DateType \<Rightarrow> string" where
  "dateType_string generalAvailability = ''generalAvailability''"
| "dateType_string preview = ''preview''"

definition date_filter :: "string \<Rightarrow> DateType \<Rightarrow> string" where
  "date_filter date dateType =
     (let field = (if dateType = generalAvailability then ''generalAvailabilityDate''
                   else ''previewAvailabilityDate'')
      in field @ '' eq '' @ quote @ date @ quote)"

definition filter_by_date ::
  "string \<Rightarrow> DateType option \<Rightarrow> int option \<Rightarrow> world \<Rightarrow> cache \<Rightarrow> CallToolResult \<times> cache" where
  "filter_by_date date dateType_arg limit_arg w c =
     (let dateType = default_to generalAvailability dateType_arg
      in limited_envelope
           [(''date'', JString date), (''dateType'', JString (dateType_string dateType))]
           (date_filter date dateType) (default_to 100 limit_arg) w c)"

definition filter_roadmap ::
  "string \<Rightarrow> int option \<Rightarrow> world \<Rightarrow> cache \<Rightarrow> CallToolResult \<times> cache" where
  "filter_roadmap flt limit_arg w c =
     limited_envelope [(''filter'', JString flt)] flt (default_to 100 limit_arg) w c"

text \<open>Reading a response: the property names of its envelope, and one property.\<close>

definition envelope_fields :: "CallToolResult \<Rightarrow> string list" where
  "envelope_fields r =
     (case content r of JsonText (JObject props) \<Rightarrow> map fst props | _ \<Rightarrow> [])"

definition envelope_field :: "CallToolResult \<Rightarrow> string \<Rightarrow> json option" where
  "envelope_field r name =
     (case content r of JsonText (JObject props) \<Rightarrow> map_of props name | _ \<Rightarrow> None)"

section \<open>Auxiliary notions of the verification\<close>

text \<open>A keyword of the blocklist is a non-empty run of word characters.\<close>

definition wordy :: "string \<Rightarrow> bool" where
  "wordy kw = (kw \<noteq> [] \<and> list_all isWordChar kw)"

text \<open>
  The same test on two precomputed lists, the word-character flags and the folded
  characters of the string: it decides the test of the sanitizer faster.
\<close>

definition boundaryAt :: "bool list \<Rightarrow> nat \<Rightarrow> bool" where
  "boundaryAt ws i = ((0 < i \<and> i \<le> length ws \<and> ws ! (i - 1)) \<noteq> (i < length ws \<and> ws ! i))"

definition scan :: "bool list \<Rightarrow> string \<Rightarrow> bool" where
  "scan ws cs =
     list_ex (\<lambda>i. boundaryAt ws i \<and>
                list_ex (\<lambda>kw. take (length kw) (drop i cs) = kw \<and> boundaryAt ws (i + length kw))
                  (map (map canonicalize) dangerousKeywords))
       [0..<Suc (length cs)]"

text \<open>
  The shape of every cache the server can reach: a \<open>Map\<close> holds a key once, and the
  cleanup keeps at most 50 entries.
\<close>

definition cache_ok :: "cache \<Rightarrow> bool" where
  "cache_ok c = (distinct (cache_keys c) \<and> cache_size c \<le> 50)"

text \<open>A run of cache updates, in order.\<close>

fun store_all :: "(string \<times> CacheEntry) list \<Rightarrow> cache \<Rightarrow> cache" where
  "store_all [] c = c"
| "store_all ((k, v) # kvs) c = store_all kvs (cache_store c k v)"

text \<open>
  A request succeeds fully when it resolves to a response with a success status whose
  body decodes to a value other than \<open>null\<close>.
\<close>

definition fetch_succeeds :: "fetch_outcome \<Rightarrow> bool" where
  "fetch_succeeds outcome =
     (case outcome of
        Resolved response \<Rightarrow>
          ok response \<and> (case json_body response of JsonObject v \<Rightarrow> True | _ \<Rightarrow> False)
      | _ \<Rightarrow> False)"

text \<open>A list without its last \<open>m\<close> elements.\<close>

definition except_last :: "nat \<Rightarrow> 'a list \<Rightarrow> 'a list" where
  "except_last m xs = take (length xs - m) xs"

text \<open>What \<open>slice(0, n)\<close> keeps for a limit \<open>n\<close> that is zero or negative.\<close>

definition limited :: "int \<Rightarrow> 'a list \<Rightarrow> 'a list" where
  "limited n xs = (if n = 0 then [] else except_last (nat (- n)) xs)"

text \<open>
  An envelope in the words of the specification: a success whose \<open>total\<close> counts the
  fetched items and whose \<open>returned\<close> counts the items it carries.
\<close>

definition counted_envelope :: "RoadmapItem list \<Rightarrow> CallToolResult \<Rightarrow> bool" where
  "counted_envelope fetched r =
     (\<not> isError r \<and> envelope_field r ''total'' = Some (count fetched)
      \<and> (case envelope_field r ''items'' of
             Some (JItems page) \<Rightarrow> envelope_field r ''returned'' = Some (count page)
           | _ \<Rightarrow> False))"

text \<open>
  Reading a string literal of the filter grammar, from just after its opening quote: two
  quotes stand for one quote of the value, and a single quote ends the literal. The
  result is the value and the rest of the expression, or \<open>None\<close> when the literal is not
  closed.
\<close>

fun read_literal :: "string \<Rightarrow> (string \<times> string) option" where
  "read_literal [] = None"
| "read_literal [ch] = (if ch = CHR 0x27 then Some ([], []) else None)"
| "read_literal (ch # ch' # s) =
     (if ch = CHR 0x27
      then (if ch' = CHR 0x27
            then map_option (\<lambda>(v, rest). (CHR 0x27 # v, rest)) (read_literal s)
            else Some ([], ch' # s))
      else map_option (\<lambda>(v, rest). (ch # v, rest)) (read_literal (ch' # s)))"

text \<open>
  Sample data: items, an upstream that serves them, one that serves only the unfiltered
  request, and one that times out.
\<close>

definition sample_item :: "nat \<Rightarrow> RoadmapItem" where
  "sample_item i =
     \<lparr>item_id = replicate (Suc i) (CHR ''7''), title = Some ''Microsoft Copilot Update'',
      description = None\<rparr>"

definition sample_items :: "nat \<Rightarrow> RoadmapItem list" where
  "sample_items n = map sample_item [0..<n]"

definition serving :: "RoadmapItem list \<Rightarrow> int \<Rightarrow> world" where
  "serving items now =
     \<lparr>clock_at_lookup = now,
      network = (\<lambda>request. Resolved \<lparr>ok = True, status = 200, statusText = ''OK'',
                   text_body = None, json_body = JsonObject (Some items)\<rparr>),
      clock_at_store = now + 250\<rparr>"

definition selective :: "RoadmapItem list \<Rightarrow> int \<Rightarrow> world" where
  "selective items now =
     \<lparr>clock_at_lookup = now,
      network = (\<lambda>request. case request of
                   None \<Rightarrow> Resolved \<lparr>ok = True, status = 200, statusText = ''OK'',
                             text_body = None, json_body = JsonObject (Some items)\<rparr>
                 | Some f \<Rightarrow> OtherError (Error ''fetch failed'')),
      clock_at_store = now + 250\<rparr>"

definition timing_out :: "int \<Rightarrow> world" where
  "timing_out now =
     \<lparr>clock_at_lookup = now, network = (\<lambda>request. AbortError), clock_at_store = now + 30000\<rparr>"

definition sample_entry :: CacheEntry where
  "sample_entry = \<lparr>data = sample_items 2, timestamp = 1000, entry_filter = None\<rparr>"

definition sample_cache :: cache where
  "sample_cache = map (\<lambda>i. (replicate (Suc i) (CHR ''k''), sample_entry)) [0..<50]"

definition sample_stores :: "(string \<times> CacheEntry) list" where
  "sample_stores = sample_cache @ [(''new'', sample_entry)]"

section \<open>The sanitizer against its specification\<close>

lemma code_char_of: "n < 256 \<Longrightarrow> code (char_of n) = n"
  by (simp add: code_def)

lemma isWordChar_canonicalize: "isWordChar (canonicalize c) = isWordChar c"
  unfolding isWordChar_def canonicalize_def
  by (auto simp: code_char_of)

lemma canonicalize_eq_word:
  assumes "canonicalize c = canonicalize k"
  shows "isWordChar c = isWordChar k"
  using isWordChar_canonicalize[of c] isWordChar_canonicalize[of k] assms by simp

lemma map_canonicalize_word:
  "map canonicalize w = map canonicalize kw \<Longrightarrow> list_all isWordChar w = list_all isWordChar kw"
proof (induction w arbitrary: kw)
  case Nil then show ?case by simp
next
  case (Cons c w)
  then obtain k kw' where kw: "kw = k # kw'" by (cases kw) auto
  with Cons show ?case by (auto dest: canonicalize_eq_word)
qed

lemma dangerousKeywords_wordy: "list_all wordy dangerousKeywords"
  by (simp add: dangerousKeywords_def wordy_def isWordChar_def code_def)

lemma whole_word_of_match:
  assumes wk: "wordy kw"
    and i: "i \<le> length s"
    and b1: "wordBoundary s i"
    and m: "matchesAt kw s i"
    and b2: "wordBoundary s (i + length kw)"
  shows "containsWholeWord kw s"
proof -
  define a where "a = take i s"
  define w where "w = take (length kw) (drop i s)"
  define b where "b = drop (i + length kw) s"
  from m have len: "i + length kw \<le> length s"
    and can: "map canonicalize w = map canonicalize kw"
    by (simp_all add: matchesAt_def w_def)
  have lw: "length w = length kw" using len by (simp add: w_def)
  from wk have kpos: "0 < length kw" and kall: "list_all isWordChar kw"
    by (simp_all add: wordy_def)
  have wall: "list_all isWordChar w" using map_canonicalize_word[OF can] kall by simp
  have s: "s = a @ w @ b"
    unfolding a_def w_def b_def by (metis append_take_drop_id drop_drop add.commute)
  have wi: "\<And>j. j < length kw \<Longrightarrow> s ! (i + j) = w ! j"
    using len by (simp add: w_def)
  have first: "isWordChar (s ! i)"
    using wi[of 0] kpos wall lw by (simp add: list_all_length)
  have lastw: "isWordChar (s ! (i + length kw - 1))"
    using wi[of "length kw - 1"] kpos wall lw by (simp add: list_all_length)
  have ilt: "i < length s" using len kpos by linarith
  from b1 first ilt have left: "i = 0 \<or> \<not> isWordChar (s ! (i - 1))"
    by (auto simp: wordBoundary_def)
  have A: "a = [] \<or> \<not> isWordChar (last a)"
  proof (cases "i = 0")
    case True then show ?thesis by (simp add: a_def)
  next
    case False
    then have "a \<noteq> []" and "length a = i"
      using i ilt by (auto simp: a_def)
    then have "last a = s ! (i - 1)"
      using ilt by (simp add: last_conv_nth) (simp add: a_def)
    with left False show ?thesis by simp
  qed
  from b2 lastw len kpos have right: "\<not> (i + length kw < length s \<and> isWordChar (s ! (i + length kw)))"
    by (auto simp: wordBoundary_def)
  have B: "b = [] \<or> \<not> isWordChar (hd b)"
  proof (cases "i + length kw < length s")
    case True
    then have "hd b = s ! (i + length kw)" by (simp add: b_def hd_drop_conv_nth)
    with right True show ?thesis by simp
  next
    case False then show ?thesis by (simp add: b_def)
  qed
  from s can A B show ?thesis unfolding containsWholeWord_def by blast
qed

lemma match_of_whole_word:
  assumes wk: "wordy kw" and c: "containsWholeWord kw s"
  shows "\<exists>i \<le> length s. wordBoundary s i \<and> matchesAt kw s i \<and> wordBoundary s (i + length kw)"
proof -
  from c obtain a w b where s: "s = a @ w @ b"
    and can: "map canonicalize w = map canonicalize kw"
    and A: "a = [] \<or> \<not> isWordChar (last a)"
    and B: "b = [] \<or> \<not> isWordChar (hd b)"
    unfolding containsWholeWord_def by blast
  from can have lw: "length w = length kw" by (rule map_eq_imp_length_eq)
  from wk have kpos: "0 < length kw" and kall: "list_all isWordChar kw"
    by (simp_all add: wordy_def)
  have wall: "list_all isWordChar w" using map_canonicalize_word[OF can] kall by simp
  have wne: "w \<noteq> []" using lw kpos by auto
  let ?i = "length a"
  have m: "matchesAt kw s ?i" using can lw by (simp add: matchesAt_def s)
  have first: "isWordChar (s ! ?i)"
    using wall wne by (cases w) (simp_all add: s nth_append)
  have lastc: "isWordChar (s ! (?i + length kw - 1))"
  proof -
    have "?i + length kw - 1 = ?i + (length w - 1)" using lw kpos by linarith
    then have "s ! (?i + length kw - 1) = (w @ b) ! (length w - 1)"
      unfolding s by (simp only: nth_append_length_plus)
    also have "\<dots> = w ! (length w - 1)" using wne by (simp add: nth_append)
    finally have "s ! (?i + length kw - 1) = w ! (length w - 1)" .
    then show ?thesis using wall wne by (simp add: list_all_length)
  qed
  have prev: "?i = 0 \<or> \<not> isWordChar (s ! (?i - 1))"
  proof (cases "a = []")
    case True then show ?thesis by simp
  next
    case False
    then have "s ! (?i - 1) = last a" by (simp add: s nth_append last_conv_nth)
    with A False show ?thesis by simp
  qed
  have nxt: "\<not> (?i + length kw < length s \<and> isWordChar (s ! (?i + length kw)))"
  proof (cases "b = []")
    case True then show ?thesis by (simp add: s lw)
  next
    case False
    then have "s ! (?i + length kw) = hd b"
      using lw by (simp add: s nth_append hd_conv_nth)
    with B False show ?thesis by simp
  qed
  have b1: "wordBoundary s ?i"
    using first prev wne by (auto simp: wordBoundary_def s)
  have b2: "wordBoundary s (?i + length kw)"
    using lastc nxt kpos lw by (auto simp: wordBoundary_def s)
  have "?i \<le> length s" by (simp add: s)
  with b1 m b2 show ?thesis by blast
qed

lemma dangerousPatterns_test_iff: "dangerousPatterns_test s = containsBlockedKeyword s"
proof
  assume "dangerousPatterns_test s"
  then have "\<exists>i \<in> set [0..<Suc (length s)]. \<exists>kw \<in> set dangerousKeywords.
      wordBoundary s i \<and> matchesAt kw s i \<and> wordBoundary s (i + length kw)"
    unfolding dangerousPatterns_test_def list_ex_iff .
  then obtain i kw where "i \<in> set [0..<Suc (length s)]" "kw \<in> set dangerousKeywords"
    "wordBoundary s i" "matchesAt kw s i" "wordBoundary s (i + length kw)"
    by blast
  moreover from this have "i \<le> length s" by auto
  moreover have "wordy kw"
    using dangerousKeywords_wordy \<open>kw \<in> set dangerousKeywords\<close> by (simp add: list_all_iff)
  ultimately show "containsBlockedKeyword s"
    unfolding containsBlockedKeyword_def using whole_word_of_match by blast
next
  assume "containsBlockedKeyword s"
  then obtain kw where kw: "kw \<in> set dangerousKeywords" and c: "containsWholeWord kw s"
    unfolding containsBlockedKeyword_def by blast
  have "wordy kw" using dangerousKeywords_wordy kw by (simp add: list_all_iff)
  from match_of_whole_word[OF this c] obtain i where "i \<le> length s"
    "wordBoundary s i \<and> matchesAt kw s i \<and> wordBoundary s (i + length kw)" by blast
  then have "i \<in> set [0..<Suc (length s)]" by auto
  with kw \<open>wordBoundary s i \<and> matchesAt kw s i \<and> wordBoundary s (i + length kw)\<close>
  show "dangerousPatterns_test s"
    unfolding dangerousPatterns_test_def list_ex_iff by blast
qed

subsection \<open>Evaluating the sanitizer on a given string\<close>

lemma wordBoundary_boundaryAt: "wordBoundary s i = boundaryAt (map isWordChar s) i"
  by (auto simp: wordBoundary_def boundaryAt_def)

lemma matchesAt_take:
  assumes "i \<le> length s"
  shows "matchesAt kw s i = (take (length kw) (drop i (map canonicalize s)) = map canonicalize kw)"
proof -
  have "i + length kw \<le> length s"
    if "take (length kw) (drop i (map canonicalize s)) = map canonicalize kw"
  proof -
    from that have "length (take (length kw) (drop i (map canonicalize s))) = length kw"
      by (metis length_map)
    then show ?thesis using assms by simp
  qed
  then show ?thesis by (auto simp: matchesAt_def take_map drop_map)
qed

lemma dangerousPatterns_test_scan:
  "dangerousPatterns_test s = scan (map isWordChar s) (map canonicalize s)"
  unfolding dangerousPatterns_test_def scan_def list_ex_iff
  by (auto simp: wordBoundary_boundaryAt matchesAt_take less_Suc_eq_le)

lemma folded_keywords:
  "map (map canonicalize) dangerousKeywords =
     [''DROP'', ''DELETE'', ''INSERT'', ''UPDATE'', ''EXEC'', ''EXECUTE'', ''SCRIPT'', ''JAVASCRIPT'']"
  by code_simp

lemmas strip_eval = trim_def removeDangerousChars_def isWhiteSpace_def code_def quote_def

lemmas scan_eval = scan_def boundaryAt_def folded_keywords isWordChar_def code_def quote_def

lemma sanitize_accepts:
  assumes "trim (removeDangerousChars flt) = t"
    and "map canonicalize t = cs"
    and "\<not> scan (map isWordChar t) cs"
  shows "sanitizeODataFilter flt = Inr t"
  using assms by (simp add: sanitizeODataFilter_def Let_def dangerousPatterns_test_scan)

lemma sanitize_rejects:
  assumes "trim (removeDangerousChars flt) = t"
    and "map canonicalize t = cs"
    and "scan (map isWordChar t) cs"
  shows "sanitizeODataFilter flt
           = Inl (Error ''Invalid filter: potentially dangerous keywords detected'')"
  using assms by (simp add: sanitizeODataFilter_def Let_def dangerousPatterns_test_scan)

lemma example_rejected:
  "sanitizeODataFilter (''status eq 'x'; DROP'')
     = Inl (Error ''Invalid filter: potentially dangerous keywords detected'')"
proof (rule sanitize_rejects)
  show "trim (removeDangerousChars ''status eq 'x'; DROP'') = ''status eq 'x' DROP''"
    by (simp add: strip_eval)
  show "map canonicalize ''status eq 'x' DROP'' = ''STATUS EQ 'X' DROP''"
    by code_simp
  show "scan (map isWordChar ''status eq 'x' DROP'')
          (''STATUS EQ 'X' DROP'')"
    by (simp add: scan_eval)
qed

lemma example_accepted:
  "sanitizeODataFilter (''status eq 'Launched'' @ quote) = Inr (''status eq 'Launched'' @ quote)"
proof (rule sanitize_accepts)
  show "trim (removeDangerousChars (''status eq 'Launched'' @ quote)) = ''status eq 'Launched'' @ quote"
    by (simp add: strip_eval)
  show "map canonicalize (''status eq 'Launched'' @ quote) = ''STATUS EQ 'LAUNCHED'' @ quote"
    by code_simp
  show "\<not> scan (map isWordChar (''status eq 'Launched'' @ quote))
          (''STATUS EQ 'LAUNCHED'' @ quote)"
    by (simp add: scan_eval)
qed

subsection \<open>Trimming\<close>

lemma trim_spec:
  "\<exists>pre post. s = pre @ trim s @ post \<and> list_all isWhiteSpace pre \<and> list_all isWhiteSpace post"
  and trim_ends: "trim s = [] \<or> (\<not> isWhiteSpace (hd (trim s)) \<and> \<not> isWhiteSpace (last (trim s)))"
proof -
  let ?P = isWhiteSpace
  let ?d = "dropWhile ?P s"
  let ?pre = "takeWhile ?P s"
  let ?post = "rev (takeWhile ?P (rev ?d))"
  have t: "trim s = rev (dropWhile ?P (rev ?d))" by (simp add: trim_def)
  have d: "?d = trim s @ ?post"
    unfolding t by (metis rev_append rev_rev_ident takeWhile_dropWhile_id)
  have "s = ?pre @ ?d" by simp
  then have s: "s = ?pre @ trim s @ ?post" using d by simp
  have pre: "list_all ?P ?pre" by (simp add: list_all_iff) (meson set_takeWhileD)
  have post: "list_all ?P ?post" by (simp add: list_all_iff) (meson set_takeWhileD)
  from s pre post
  show "\<exists>pre post. s = pre @ trim s @ post \<and> list_all isWhiteSpace pre \<and> list_all isWhiteSpace post"
    by blast
  show "trim s = [] \<or> (\<not> isWhiteSpace (hd (trim s)) \<and> \<not> isWhiteSpace (last (trim s)))"
  proof (cases "trim s = []")
    case True then show ?thesis by simp
  next
    case False
    then have ne: "dropWhile ?P (rev ?d) \<noteq> []" by (simp add: t)
    then have "\<not> ?P (hd (dropWhile ?P (rev ?d)))" by (rule hd_dropWhile)
    then have l: "\<not> ?P (last (trim s))" by (simp add: t last_rev)
    have "?d \<noteq> []" using d False by (metis append_is_Nil_conv)
    then have "\<not> ?P (hd ?d)" by (rule hd_dropWhile)
    moreover have "hd ?d = hd (trim s)" using d False by (metis hd_append2)
    ultimately show ?thesis using l by simp
  qed
qed

text \<open>
  Claim C3. For every input string the sanitizer removes the semicolons and backslashes and
  trims the result (it takes white space off both ends, and nothing else); it fails with the invalid-filter error exactly when the stripped
  expression contains a keyword of the blocklist as a whole word, in any letter case, and
  otherwise returns the trimmed expression unchanged. \<open>status eq 'x'; DROP\<close> is rejected
  and \<open>status eq 'Launched'\<close> is returned unchanged.
\<close>

theorem sanitizeODataFilter_spec:
  "sanitizeODataFilter flt =
     (if containsBlockedKeyword (trim (removeDangerousChars flt))
      then Inl (Error ''Invalid filter: potentially dangerous keywords detected'')
      else Inr (trim (removeDangerousChars flt)))
   \<and> removeDangerousChars flt = filter (\<lambda>ch. ch \<noteq> CHR '';'' \<and> ch \<noteq> CHR 0x5C) flt
   \<and> (\<exists>pre post. removeDangerousChars flt = pre @ trim (removeDangerousChars flt) @ post
          \<and> list_all isWhiteSpace pre \<and> list_all isWhiteSpace post)
   \<and> (trim (removeDangerousChars flt) = []
        \<or> (\<not> isWhiteSpace (hd (trim (removeDangerousChars flt)))
            \<and> \<not> isWhiteSpace (last (trim (removeDangerousChars flt)))))
   \<and> sanitizeODataFilter (''status eq 'x'; DROP'')
        = Inl (Error ''Invalid filter: potentially dangerous keywords detected'')
   \<and> sanitizeODataFilter (''status eq 'Launched'' @ quote) = Inr (''status eq 'Launched'' @ quote)"
proof (intro conjI)
  show "sanitizeODataFilter flt =
     (if containsBlockedKeyword (trim (removeDangerousChars flt))
      then Inl (Error ''Invalid filter: potentially dangerous keywords detected'')
      else Inr (trim (removeDangerousChars flt)))"
    by (simp add: sanitizeODataFilter_def Let_def dangerousPatterns_test_iff)
  show "removeDangerousChars flt = filter (\<lambda>ch. ch \<noteq> CHR '';'' \<and> ch \<noteq> CHR 0x5C) flt"
    by (simp add: removeDangerousChars_def)
  show "\<exists>pre post. removeDangerousChars flt = pre @ trim (removeDangerousChars flt) @ post
          \<and> list_all isWhiteSpace pre \<and> list_all isWhiteSpace post"
    by (rule trim_spec)
  show "trim (removeDangerousChars flt) = []
        \<or> (\<not> isWhiteSpace (hd (trim (removeDangerousChars flt)))
            \<and> \<not> isWhiteSpace (last (trim (removeDangerousChars flt))))"
    by (rule trim_ends)
  show "sanitizeODataFilter (''status eq 'x'; DROP'')
        = Inl (Error ''Invalid filter: potentially dangerous keywords detected'')"
    by (rule example_rejected)
  show "sanitizeODataFilter (''status eq 'Launched'' @ quote) = Inr (''status eq 'Launched'' @ quote)"
    by (rule example_accepted)
qed

theorem sanitizeODataFilter_spec_witness:
  "containsBlockedKeyword (trim (removeDangerousChars ''status eq 'x'; DROP''))
   \<and> sanitizeODataFilter (''status eq 'x'; DROP'')
        = Inl (Error ''Invalid filter: potentially dangerous keywords detected'')"
proof -
  let ?t = "trim (removeDangerousChars ''status eq 'x'; DROP'')"
  have "sanitizeODataFilter ''status eq 'x'; DROP'' =
     (if containsBlockedKeyword ?t
      then Inl (Error ''Invalid filter: potentially dangerous keywords detected'')
      else Inr ?t)"
    using sanitizeODataFilter_spec[of "''status eq 'x'; DROP''"] by (rule conjunct1)
  moreover have "containsBlockedKeyword ?t"
    using example_rejected
    by (simp add: sanitizeODataFilter_def Let_def dangerousPatterns_test_iff split: if_splits)
  ultimately show ?thesis by (simp only: if_True simp_thms)
qed

section \<open>Properties of the cache and the fetcher\<close>

lemma map_of_cache_set: "map_of (cache_set c k v) = (map_of c)(k \<mapsto> v)"
  by (induction c) (auto simp: fun_eq_iff)

lemma cache_get_set: "cache_get (cache_set c k v) k' = (if k' = k then Some v else cache_get c k')"
  by (simp add: cache_get_def map_of_cache_set)

lemma cache_set_Cons:
  "cache_set (p # c) k v = (if fst p = k then (k, v) # c else p # cache_set c k v)"
  by (cases p) simp

lemma keys_cache_set:
  "cache_keys (cache_set c k v) = (if k \<in> set (cache_keys c) then cache_keys c else cache_keys c @ [k])"
proof (induction c)
  case Nil
  show ?case by (simp add: cache_keys_def)
next
  case (Cons p c)
  then show ?case
    by (auto simp add: cache_keys_def cache_set_Cons simp del: cache_set.simps(2))
qed

lemma size_cache_set:
  "cache_size (cache_set c k v) = (if k \<in> set (cache_keys c) then cache_size c else Suc (cache_size c))"
proof (induction c)
  case Nil
  show ?case by (simp add: cache_keys_def cache_size_def)
next
  case (Cons p c)
  then show ?case
    by (simp add: cache_keys_def cache_size_def cache_set_Cons del: cache_set.simps(2))
qed

lemma cache_set_ne: "cache_set c k v \<noteq> []"
  by (cases c) (simp_all add: cache_set_Cons del: cache_set.simps(2))

lemma cache_set_new: "k \<notin> set (cache_keys c) \<Longrightarrow> cache_set c k v = c @ [(k, v)]"
proof (induction c)
  case Nil
  show ?case by simp
next
  case (Cons p c)
  then show ?case
    by (auto simp add: cache_keys_def cache_set_Cons simp del: cache_set.simps(2))
qed

lemma distinct_cache_set: "distinct (cache_keys c) \<Longrightarrow> distinct (cache_keys (cache_set c k v))"
  by (simp add: keys_cache_set)

lemma cache_delete_first:
  "distinct (cache_keys c) \<Longrightarrow> c \<noteq> [] \<Longrightarrow> cache_delete c (cache_keys c ! 0) = tl c"
proof (cases c)
  case Nil then show "c \<noteq> [] \<Longrightarrow> ?thesis" by simp
next
  case (Cons p c')
  assume d: "distinct (cache_keys c)"
  have "\<forall>e \<in> set c'. fst e \<noteq> fst p"
    using d Cons by (auto simp: cache_keys_def intro: rev_image_eqI)
  then have "filter (\<lambda>e. fst e \<noteq> fst p) c' = c'" by (simp add: filter_id_conv)
  then show ?thesis using Cons by (simp add: cache_delete_def cache_keys_def)
qed

lemma cache_get_delete: "cache_get (cache_delete c k) k' = (if k' = k then None else cache_get c k')"
  unfolding cache_get_def cache_delete_def
  by (induction c) auto

lemma cache_store_eq:
  assumes "distinct (cache_keys c)"
  shows "cache_store c k v =
           (if cache_size (cache_set c k v) > 50 then tl (cache_set c k v) else cache_set c k v)"
proof -
  let ?c1 = "cache_set c k v"
  have ne: "?c1 \<noteq> []" by (rule cache_set_ne)
  then have "0 < length (cache_keys ?c1)" by (simp add: cache_keys_def)
  moreover have "cache_delete ?c1 (cache_keys ?c1 ! 0) = tl ?c1"
    using cache_delete_first[OF distinct_cache_set[OF assms] ne] .
  ultimately show ?thesis by (simp add: cache_store_def Let_def)
qed

lemma cache_get_store_same:
  assumes "cache_size c \<le> 50"
  shows "cache_get (cache_store c k v) k = Some v"
proof (cases "k \<in> set (cache_keys c)")
  case True
  then have "cache_size (cache_set c k v) \<le> 50" using assms by (simp add: size_cache_set)
  then show ?thesis by (simp add: cache_store_def Let_def cache_get_set)
next
  case False
  show ?thesis
  proof (cases "cache_size (cache_set c k v) > 50")
    case big: True
    then have "c \<noteq> []" using False by (auto simp: size_cache_set cache_size_def)
    then obtain p c' where c: "c = p # c'" by (cases c) auto
    then have "fst p \<noteq> k" using False by (auto simp: cache_keys_def)
    moreover have "cache_keys (cache_set c k v) ! 0 = fst p"
      using c \<open>fst p \<noteq> k\<close> by (simp add: cache_keys_def cache_set_Cons del: cache_set.simps(2))
    ultimately show ?thesis using big cache_set_ne[of c k v]
      by (simp add: cache_store_def Let_def cache_get_delete cache_get_set cache_keys_def)
  next
    case False
    then show ?thesis by (simp add: cache_store_def Let_def cache_get_set)
  qed
qed

lemma cache_ok_empty: "cache_ok []"
  by (simp add: cache_ok_def cache_keys_def cache_size_def)

lemma cache_ok_store:
  assumes "cache_ok c"
  shows "cache_ok (cache_store c k v)"
proof -
  let ?c1 = "cache_set c k v"
  from assms have d: "distinct (cache_keys c)" and sz: "cache_size c \<le> 50"
    by (simp_all add: cache_ok_def)
  have d1: "distinct (cache_keys ?c1)" using d by (rule distinct_cache_set)
  have sz1: "cache_size ?c1 \<le> 51" using sz by (simp add: size_cache_set)
  have "distinct (cache_keys (tl ?c1))"
    using d1 by (simp add: cache_keys_def map_tl distinct_tl)
  moreover have "cache_size (tl ?c1) \<le> 50" using sz1 by (simp add: cache_size_def)
  ultimately show ?thesis using d1
    by (simp add: cache_ok_def cache_store_eq[OF d])
qed

lemma cache_ok_fetch: "cache_ok c \<Longrightarrow> cache_ok (snd (fetchRoadmapItemsV2 flt w c))"
  unfolding fetchRoadmapItemsV2_def
  by (auto simp: Let_def cache_ok_store split: sum.splits option.splits)

lemma store_all_snoc: "store_all (kvs @ [(k, v)]) c = cache_store (store_all kvs c) k v"
  by (induction kvs c rule: store_all.induct) auto

lemma keys_store_all:
  "distinct (map fst kvs) \<Longrightarrow>
     store_all kvs [] = drop (length kvs - 50) kvs"
proof (induction kvs rule: rev_induct)
  case Nil then show ?case by simp
next
  case (snoc p kvs)
  obtain k v where p: "p = (k, v)" by (cases p)
  let ?c = "drop (length kvs - 50) kvs"
  from snoc have IH: "store_all kvs [] = ?c" and knew: "k \<notin> set (map fst kvs)"
    and d: "distinct (map fst kvs)" by (auto simp: p)
  have knew': "k \<notin> set (cache_keys ?c)"
    using knew by (auto simp: cache_keys_def dest: in_set_dropD)
  have dc: "distinct (cache_keys ?c)"
    using d by (simp add: cache_keys_def flip: drop_map)
  have set1: "cache_set ?c k v = ?c @ [(k, v)]" using knew' by (rule cache_set_new)
  have "cache_store ?c k v = drop (length (kvs @ [p]) - 50) (kvs @ [p])"
  proof (cases "length kvs < 50")
    case True
    then show ?thesis unfolding cache_store_eq[OF dc] set1 by (simp add: cache_size_def p)
  next
    case False
    then have big: "cache_size (?c @ [(k, v)]) > 50" by (simp add: cache_size_def)
    have ne: "?c \<noteq> []" using False by simp
    have "tl (?c @ [(k, v)]) = tl ?c @ [(k, v)]" using ne by simp
    also have "tl ?c = drop (Suc (length kvs - 50)) kvs" by (simp add: tl_drop drop_Suc)
    also have "Suc (length kvs - 50) = length (kvs @ [p]) - 50" using False by simp
    finally show ?thesis unfolding cache_store_eq[OF dc] set1 using big False
      by (simp add: p)
  qed
  then show ?case by (simp add: p store_all_snoc IH)
qed

lemma MAX_CACHE_AGE_MS_value: "MAX_CACHE_AGE_MS = 300000"
  by (simp add: MAX_CACHE_AGE_MS_def)

lemma fetch_items_Inr_iff: "(\<exists>items. fetch_items outcome = Inr items) = fetch_succeeds outcome"
  by (auto simp: fetch_items_def fetchWithTimeout_def fetch_succeeds_def
      split: fetch_outcome.splits decoded.splits option.splits)

lemma fetch_hit:
  assumes "sanitizedFilter_of flt = Inr sf"
    and "cache_lookup c (cacheKey_of sf) (clock_at_lookup w) = Some d"
  shows "fetchRoadmapItemsV2 flt w c = (Inr d, c)"
  using assms by (simp add: fetchRoadmapItemsV2_def)

lemma fetch_miss:
  assumes "sanitizedFilter_of flt = Inr sf"
    and "cache_lookup c (cacheKey_of sf) (clock_at_lookup w) = None"
  shows "fetchRoadmapItemsV2 flt w c =
     (case fetch_items (network w (request_of sf)) of
        Inl e \<Rightarrow> (Inl e, c)
      | Inr items \<Rightarrow>
          (Inr items,
           cache_store c (cacheKey_of sf)
             \<lparr>data = items, timestamp = clock_at_store w, entry_filter = sf\<rparr>))"
  using assms by (simp add: fetchRoadmapItemsV2_def)

lemma fetch_rejected:
  assumes "sanitizedFilter_of flt = Inl e"
  shows "fetchRoadmapItemsV2 flt w c = (Inl e, c)"
  using assms by (simp add: fetchRoadmapItemsV2_def)

lemma cache_lookup_entry:
  "cache_get c k = Some e \<Longrightarrow>
   cache_lookup c k now = (if now - timestamp e < 300000 then Some (data e) else None)"
  by (simp add: cache_lookup_def MAX_CACHE_AGE_MS_def)

lemma digits_30000: "digits 30000 = ''30000''"
  by (simp add: digits.simps[of 30000] digits.simps[of 3000] digits.simps[of 300]
      digits.simps[of 30] digits.simps[of 3] digit_def)

lemma fetch_items_AbortError:
  "fetch_items AbortError = Inl (Error ''Request timeout after 30000ms'')"
  by (simp add: fetch_items_def fetchWithTimeout_def API_TIMEOUT_MS_def digits_30000)

text \<open>
  Claim C1. For every cache key, a lookup at an age strictly below 5 minutes (300000 ms)
  after the store returns the stored items unchanged, and a lookup at an age of 5 minutes
  or more is a miss. \<open>fetchRoadmapItemsV2\<close> answers a fresh entry from the cache and
  leaves the cache as it is; on an expired entry it goes upstream as if the entry were
  absent, and the lookup does not delete the entry: when the request fails the cache is
  unchanged.
\<close>

theorem cache_ttl:
  "(cache_size c \<le> 50 \<longrightarrow>
      cache_lookup (cache_store c k \<lparr>data = items, timestamp = t0, entry_filter = f\<rparr>) k now
        = (if now - t0 < 300000 then Some items else None))
   \<and> (cache_get c k = Some e \<longrightarrow>
        cache_lookup c k now = (if now - timestamp e < 300000 then Some (data e) else None))
   \<and> (sanitizedFilter_of flt = Inr sf \<and> cache_get c (cacheKey_of sf) = Some e
        \<and> clock_at_lookup w - timestamp e < 300000 \<longrightarrow>
        fetchRoadmapItemsV2 flt w c = (Inr (data e), c))
   \<and> (sanitizedFilter_of flt = Inr sf \<and> cache_get c (cacheKey_of sf) = Some e
        \<and> clock_at_lookup w - timestamp e \<ge> 300000 \<longrightarrow>
        fst (fetchRoadmapItemsV2 flt w c) = fetch_items (network w (request_of sf))
        \<and> (\<not> fetch_succeeds (network w (request_of sf)) \<longrightarrow>
             snd (fetchRoadmapItemsV2 flt w c) = c))"
proof (intro conjI impI)
  assume "cache_size c \<le> 50"
  then show "cache_lookup (cache_store c k \<lparr>data = items, timestamp = t0, entry_filter = f\<rparr>) k now
        = (if now - t0 < 300000 then Some items else None)"
    by (simp add: cache_lookup_entry[OF cache_get_store_same])
next
  assume "cache_get c k = Some e"
  then show "cache_lookup c k now = (if now - timestamp e < 300000 then Some (data e) else None)"
    by (rule cache_lookup_entry)
next
  assume a: "sanitizedFilter_of flt = Inr sf \<and> cache_get c (cacheKey_of sf) = Some e
        \<and> clock_at_lookup w - timestamp e < 300000"
  then have "cache_lookup c (cacheKey_of sf) (clock_at_lookup w) = Some (data e)"
    by (simp add: cache_lookup_entry)
  with a show "fetchRoadmapItemsV2 flt w c = (Inr (data e), c)"
    by (simp add: fetch_hit)
next
  assume a: "sanitizedFilter_of flt = Inr sf \<and> cache_get c (cacheKey_of sf) = Some e
        \<and> clock_at_lookup w - timestamp e \<ge> 300000"
  then have miss: "cache_lookup c (cacheKey_of sf) (clock_at_lookup w) = None"
    by (simp add: cache_lookup_entry)
  from a miss show "fst (fetchRoadmapItemsV2 flt w c) = fetch_items (network w (request_of sf))"
    by (simp add: fetch_miss split: sum.splits)
  assume "\<not> fetch_succeeds (network w (request_of sf))"
  then have "\<exists>err. fetch_items (network w (request_of sf)) = Inl err"
    using fetch_items_Inr_iff[of "network w (request_of sf)"]
    by (cases "fetch_items (network w (request_of sf))") auto
  with a miss show "snd (fetchRoadmapItemsV2 flt w c) = c"
    by (auto simp: fetch_miss)
qed

theorem cache_ttl_witness:
  "cache_lookup (cache_store [] ''all'' \<lparr>data = sample_items 2, timestamp = 1000, entry_filter = None\<rparr>)
      ''all'' 300999 = Some (sample_items 2)
   \<and> cache_lookup (cache_store [] ''all'' \<lparr>data = sample_items 2, timestamp = 1000, entry_filter = None\<rparr>)
      ''all'' 301000 = None
   \<and> fetchRoadmapItemsV2 None (timing_out 300999) [(''all'', sample_entry)]
       = (Inr (sample_items 2), [(''all'', sample_entry)])
   \<and> fetchRoadmapItemsV2 None (timing_out 301000) [(''all'', sample_entry)]
       = (Inl (Error ''Request timeout after 30000ms''), [(''all'', sample_entry)])"
proof -
  let ?c = "[(''all'', sample_entry)]"
  have sf: "sanitizedFilter_of None = Inr None" by (simp add: sanitizedFilter_of_def)
  have g: "cache_get ?c (cacheKey_of None) = Some sample_entry"
    by (simp add: cache_get_def cacheKey_of_def)
  have ts: "timestamp sample_entry = 1000" "data sample_entry = sample_items 2"
    by (simp_all add: sample_entry_def)
  have fresh: "clock_at_lookup (timing_out 300999) - timestamp sample_entry < 300000"
    by (simp add: timing_out_def ts)
  have stale: "clock_at_lookup (timing_out 301000) - timestamp sample_entry \<ge> 300000"
    by (simp add: timing_out_def ts)
  have down: "network (timing_out 301000) (request_of None) = AbortError"
    by (simp add: timing_out_def)
  have nofetch: "\<not> fetch_succeeds AbortError" by (simp add: fetch_succeeds_def)
  have 1: "cache_lookup (cache_store [] ''all'' \<lparr>data = sample_items 2, timestamp = 1000, entry_filter = None\<rparr>)
      ''all'' 300999 = Some (sample_items 2)"
    using cache_ttl[where c = "[]" and k = "''all''" and items = "sample_items 2" and ?t0.0 = 1000
        and f = None and now = 300999 and e = sample_entry and flt = None and sf = None
        and w = "timing_out 300999"]
    by (simp add: cache_size_def)
  have 2: "cache_lookup (cache_store [] ''all'' \<lparr>data = sample_items 2, timestamp = 1000, entry_filter = None\<rparr>)
      ''all'' 301000 = None"
    using cache_ttl[where c = "[]" and k = "''all''" and items = "sample_items 2" and ?t0.0 = 1000
        and f = None and now = 301000 and e = sample_entry and flt = None and sf = None
        and w = "timing_out 301000"]
    by (simp add: cache_size_def)
  have 3: "fetchRoadmapItemsV2 None (timing_out 300999) ?c = (Inr (sample_items 2), ?c)"
    using cache_ttl[where c = ?c and e = sample_entry and flt = None and sf = None
        and w = "timing_out 300999" and k = "''all''" and items = "[]" and ?t0.0 = 0
        and f = None and now = 0] sf g fresh
    by (simp add: ts)
  have "fst (fetchRoadmapItemsV2 None (timing_out 301000) ?c) = fetch_items AbortError
        \<and> snd (fetchRoadmapItemsV2 None (timing_out 301000) ?c) = ?c"
    using cache_ttl[where c = ?c and e = sample_entry and flt = None and sf = None
        and w = "timing_out 301000" and k = "''all''" and items = "[]" and ?t0.0 = 0
        and f = None and now = 0] sf g stale down nofetch
    by simp
  then have 4: "fetchRoadmapItemsV2 None (timing_out 301000) ?c
       = (Inl (Error ''Request timeout after 30000ms''), ?c)"
    by (simp add: fetch_items_AbortError prod_eq_iff)
  from 1 2 3 4 show ?thesis by blast
qed

text \<open>
  Claim C2. For every store: when the size after the insertion exceeds 50, exactly one
  entry is evicted, the first key in iteration order; otherwise nothing is evicted. After
  storing 51 distinct keys into the empty cache, the cache holds exactly 50 entries and
  the first-inserted key is absent.
\<close>

theorem cache_capacity:
  "(distinct (cache_keys c) \<and> cache_size (cache_set c k v) > 50 \<longrightarrow>
      cache_store c k v = tl (cache_set c k v)
      \<and> cache_size (cache_store c k v) = cache_size (cache_set c k v) - 1
      \<and> hd (cache_keys (cache_set c k v)) \<notin> set (cache_keys (cache_store c k v)))
   \<and> (cache_size (cache_set c k v) \<le> 50 \<longrightarrow> cache_store c k v = cache_set c k v)
   \<and> (distinct (map fst kvs) \<and> length kvs = 51 \<longrightarrow>
        cache_size (store_all kvs []) = 50
        \<and> fst (hd kvs) \<notin> set (cache_keys (store_all kvs []))
        \<and> store_all kvs [] = tl kvs)"
proof (intro conjI impI)
  assume a: "distinct (cache_keys c) \<and> cache_size (cache_set c k v) > 50"
  let ?c1 = "cache_set c k v"
  from a show eq: "cache_store c k v = tl ?c1" by (simp add: cache_store_eq)
  show "cache_size (cache_store c k v) = cache_size ?c1 - 1"
    by (simp add: eq cache_size_def)
  have d1: "distinct (cache_keys ?c1)" using a by (simp add: distinct_cache_set)
  have "?c1 \<noteq> []" by (rule cache_set_ne)
  then have "cache_keys ?c1 = hd (cache_keys ?c1) # cache_keys (tl ?c1)"
    by (cases ?c1) (simp_all add: cache_keys_def)
  with d1 show "hd (cache_keys ?c1) \<notin> set (cache_keys (cache_store c k v))"
    unfolding eq by (metis distinct.simps(2))
next
  assume "cache_size (cache_set c k v) \<le> 50"
  then show "cache_store c k v = cache_set c k v" by (simp add: cache_store_def Let_def)
next
  assume a: "distinct (map fst kvs) \<and> length kvs = 51"
  then have eq: "store_all kvs [] = drop 1 kvs" by (simp add: keys_store_all)
  then show "store_all kvs [] = tl kvs" by (simp add: drop_Suc)
  show "cache_size (store_all kvs []) = 50" using a by (simp add: eq cache_size_def)
  obtain p rest where kvs: "kvs = p # rest" using a by (cases kvs) auto
  with a have "fst (hd kvs) \<notin> set (cache_keys (drop 1 kvs))"
    by (simp add: cache_keys_def)
  then show "fst (hd kvs) \<notin> set (cache_keys (store_all kvs []))"
    unfolding eq .
qed

lemma sample_cache_facts:
  "distinct (cache_keys sample_cache)" "cache_size sample_cache = 50"
  "''new'' \<notin> set (cache_keys sample_cache)"
  by (auto simp: sample_cache_def cache_keys_def cache_size_def distinct_map inj_on_def comp_def)

lemma sample_stores_facts:
  "distinct (map fst sample_stores)" "length sample_stores = 51" "fst (hd sample_stores) = ''k''"
  using sample_cache_facts
  by (auto simp: sample_stores_def cache_keys_def cache_size_def)
     (simp add: sample_cache_def upt_rec[of 0])

theorem cache_capacity_witness:
  "cache_store [] ''all'' sample_entry = [(''all'', sample_entry)]
   \<and> cache_size (store_all sample_stores []) = 50
   \<and> ''k'' \<notin> set (cache_keys (store_all sample_stores []))
   \<and> cache_size (cache_store sample_cache ''new'' sample_entry) = 50"
proof -
  note d = sample_stores_facts
  have 1: "cache_store [] ''all'' sample_entry = [(''all'', sample_entry)]"
    using cache_capacity[where c = "[]" and k = "''all''" and v = sample_entry
        and kvs = sample_stores]
    by (simp add: cache_size_def)
  have 2: "cache_size (store_all sample_stores []) = 50
      \<and> ''k'' \<notin> set (cache_keys (store_all sample_stores []))"
    using cache_capacity[where c = "[]" and k = "''all''" and v = sample_entry
        and kvs = sample_stores] d(1,2) unfolding d(3)[symmetric] by blast
  have sz: "cache_size (cache_set sample_cache ''new'' sample_entry) = 51"
    using sample_cache_facts by (simp add: size_cache_set)
  then have "distinct (cache_keys sample_cache)
        \<and> cache_size (cache_set sample_cache ''new'' sample_entry) > 50"
    using sample_cache_facts by simp
  with cache_capacity[where c = sample_cache and k = "''new''" and v = sample_entry
        and kvs = sample_stores]
  have "cache_size (cache_store sample_cache ''new'' sample_entry)
          = cache_size (cache_set sample_cache ''new'' sample_entry) - 1"
    by blast
  then have 3: "cache_size (cache_store sample_cache ''new'' sample_entry) = 50"
    by (simp add: sz)
  from 1 2 3 show ?thesis by blast
qed

text \<open>
  Claim C6. When the upstream fetch fails for any reason (the timeout, another network
  error, a non-success status, a body that does not decode) the cache is left unchanged.
  The cache changes only after a fully successful fetch and decode, and then by the store
  of the decoded items under the key of the sanitized filter.
\<close>

theorem failed_fetch_keeps_cache:
  "(sanitizedFilter_of flt = Inr sf \<and> \<not> fetch_succeeds (network w (request_of sf)) \<longrightarrow>
      snd (fetchRoadmapItemsV2 flt w c) = c)
   \<and> (snd (fetchRoadmapItemsV2 flt w c) \<noteq> c \<longrightarrow>
        (\<exists>sf items. sanitizedFilter_of flt = Inr sf
           \<and> fetch_items (network w (request_of sf)) = Inr items
           \<and> fetch_succeeds (network w (request_of sf))
           \<and> fetchRoadmapItemsV2 flt w c =
               (Inr items, cache_store c (cacheKey_of sf)
                  \<lparr>data = items, timestamp = clock_at_store w, entry_filter = sf\<rparr>)))
   \<and> \<not> fetch_succeeds AbortError
   \<and> fetch_items AbortError = Inl (Error ''Request timeout after 30000ms'')
   \<and> \<not> fetch_succeeds (OtherError err)
   \<and> (\<not> ok response \<longrightarrow> \<not> fetch_succeeds (Resolved response))
   \<and> (json_body response = JsonRejected err \<longrightarrow> \<not> fetch_succeeds (Resolved response))
   \<and> (json_body response = JsonNull \<longrightarrow> \<not> fetch_succeeds (Resolved response))"
proof (intro conjI impI)
  assume a: "sanitizedFilter_of flt = Inr sf \<and> \<not> fetch_succeeds (network w (request_of sf))"
  then have "\<exists>e. fetch_items (network w (request_of sf)) = Inl e"
    using fetch_items_Inr_iff[of "network w (request_of sf)"]
    by (cases "fetch_items (network w (request_of sf))") auto
  with a show "snd (fetchRoadmapItemsV2 flt w c) = c"
    by (auto simp: fetchRoadmapItemsV2_def Let_def split: option.splits)
next
  assume ch: "snd (fetchRoadmapItemsV2 flt w c) \<noteq> c"
  then obtain sf where sf: "sanitizedFilter_of flt = Inr sf"
    by (cases "sanitizedFilter_of flt") (auto simp: fetchRoadmapItemsV2_def)
  from ch sf have miss: "cache_lookup c (cacheKey_of sf) (clock_at_lookup w) = None"
    by (cases "cache_lookup c (cacheKey_of sf) (clock_at_lookup w)") (auto simp: fetch_hit)
  from ch sf miss obtain items where it: "fetch_items (network w (request_of sf)) = Inr items"
    by (cases "fetch_items (network w (request_of sf))") (auto simp: fetch_miss)
  then have "fetch_succeeds (network w (request_of sf))"
    using fetch_items_Inr_iff by blast
  with sf miss it show "\<exists>sf items. sanitizedFilter_of flt = Inr sf
           \<and> fetch_items (network w (request_of sf)) = Inr items
           \<and> fetch_succeeds (network w (request_of sf))
           \<and> fetchRoadmapItemsV2 flt w c =
               (Inr items, cache_store c (cacheKey_of sf)
                  \<lparr>data = items, timestamp = clock_at_store w, entry_filter = sf\<rparr>)"
    by (auto simp: fetch_miss)
next
  show "fetch_items AbortError = Inl (Error ''Request timeout after 30000ms'')"
    by (rule fetch_items_AbortError)
qed (auto simp: fetch_succeeds_def)

theorem failed_fetch_keeps_cache_witness:
  "fetchRoadmapItemsV2 None (timing_out 0) [] = (Inl (Error ''Request timeout after 30000ms''), [])
   \<and> snd (fetchRoadmapItemsV2 None (serving (sample_items 2) 0) []) \<noteq> []
   \<and> fetch_succeeds (network (serving (sample_items 2) 0) None)"
proof -
  have sf: "sanitizedFilter_of None = Inr None" by (simp add: sanitizedFilter_of_def)
  have rq: "request_of None = None" by (simp add: request_of_def)
  have "\<not> fetch_succeeds (network (timing_out 0) (request_of None))"
    by (simp add: timing_out_def fetch_succeeds_def)
  with sf have keep: "snd (fetchRoadmapItemsV2 None (timing_out 0) []) = []"
    using failed_fetch_keeps_cache[where flt = None and sf = None and w = "timing_out 0"
        and c = "[]" and err = "Error []" and response = "\<lparr>ok = False, status = 500, statusText = [], text_body = None, json_body = JsonNull\<rparr>"]
    by simp
  have "fst (fetchRoadmapItemsV2 None (timing_out 0) []) = Inl (Error ''Request timeout after 30000ms'')"
    by (simp add: fetchRoadmapItemsV2_def sf cacheKey_of_def cache_lookup_def cache_get_def rq
        timing_out_def fetch_items_AbortError)
  with keep have 1: "fetchRoadmapItemsV2 None (timing_out 0) [] = (Inl (Error ''Request timeout after 30000ms''), [])"
    by (simp add: prod_eq_iff)
  have 2: "snd (fetchRoadmapItemsV2 None (serving (sample_items 2) 0) []) \<noteq> []"
    by (simp add: fetchRoadmapItemsV2_def sf cacheKey_of_def cache_lookup_def cache_get_def rq
        serving_def fetch_items_def fetchWithTimeout_def cache_store_def Let_def cache_size_def)
  then have 3: "fetch_succeeds (network (serving (sample_items 2) 0) None)"
    using failed_fetch_keeps_cache[where flt = None and sf = None and w = "serving (sample_items 2) 0"
        and c = "[]" and err = "Error []" and response = "\<lparr>ok = False, status = 500, statusText = [], text_body = None, json_body = JsonNull\<rparr>"] sf rq
    by auto
  from 1 2 3 show ?thesis by blast
qed

section \<open>Properties of the tool handlers\<close>

subsection \<open>Quote escaping\<close>

lemma escapeQuotes_append: "escapeQuotes (a @ b) = escapeQuotes a @ escapeQuotes b"
  by (simp add: escapeQuotes_def)

lemma escapeQuotes_Cons:
  "escapeQuotes (ch # s) = (if ch = CHR 0x27 then CHR 0x27 # CHR 0x27 # escapeQuotes s
                            else ch # escapeQuotes s)"
  by (simp add: escapeQuotes_def)

lemma escapeQuotes_Nil: "escapeQuotes [] = []"
  by (simp add: escapeQuotes_def)

lemma escapeQuotes_eq_Nil: "(escapeQuotes s = []) = (s = [])"
  by (cases s) (simp_all add: escapeQuotes_Cons escapeQuotes_Nil)

lemma hd_escapeQuotes: "s \<noteq> [] \<Longrightarrow> hd (escapeQuotes s) = hd s"
  by (cases s) (simp_all add: escapeQuotes_Cons)

lemma last_escapeQuotes: "s \<noteq> [] \<Longrightarrow> last (escapeQuotes s) = last s"
proof (induction s rule: rev_induct)
  case Nil then show ?case by simp
next
  case (snoc ch s)
  show ?case by (simp add: escapeQuotes_append escapeQuotes_Cons escapeQuotes_Nil)
qed

lemma quote_not_word: "\<not> isWordChar (CHR 0x27)"
  by (simp add: isWordChar_def code_def)

lemma escapeQuotes_word: "list_all isWordChar s \<Longrightarrow> escapeQuotes s = s"
  by (induction s) (auto simp: escapeQuotes_Cons escapeQuotes_Nil quote_not_word)

lemma removeDangerousChars_escapeQuotes:
  "removeDangerousChars (escapeQuotes s) = escapeQuotes (removeDangerousChars s)"
  by (induction s) (simp_all add: escapeQuotes_Cons escapeQuotes_Nil removeDangerousChars_def)

lemma read_literal_escapeQuotes:
  assumes "rest = [] \<or> hd rest \<noteq> CHR 0x27"
  shows "read_literal (escapeQuotes v @ quote @ rest) = Some (v, rest)"
proof (induction v)
  case Nil
  show ?case using assms by (cases rest) (auto simp: escapeQuotes_Nil quote_def)
next
  case (Cons ch v)
  show ?case
  proof (cases "ch = CHR 0x27")
    case True
    then show ?thesis using Cons by (simp add: escapeQuotes_Cons)
  next
    case False
    obtain x xs where "escapeQuotes v @ quote @ rest = x # xs"
      by (cases "escapeQuotes v @ quote @ rest") (auto simp: quote_def)
    then show ?thesis using False Cons by (simp add: escapeQuotes_Cons)
  qed
qed

subsection \<open>Keywords inside a product filter\<close>

lemma wordy_keyword: "kw \<in> set dangerousKeywords \<Longrightarrow> wordy kw"
  using dangerousKeywords_wordy by (simp add: list_all_iff)

lemma containsWholeWord_escapeQuotes:
  assumes "wordy kw" and "containsWholeWord kw s"
  shows "containsWholeWord kw (escapeQuotes s)"
proof -
  from assms(2) obtain a w b where s: "s = a @ w @ b"
    and can: "map canonicalize w = map canonicalize kw"
    and A: "a = [] \<or> \<not> isWordChar (last a)"
    and B: "b = [] \<or> \<not> isWordChar (hd b)"
    unfolding containsWholeWord_def by blast
  have "list_all isWordChar w"
    using map_canonicalize_word[OF can] assms(1) by (simp add: wordy_def)
  then have w: "escapeQuotes w = w" by (rule escapeQuotes_word)
  have "escapeQuotes s = escapeQuotes a @ w @ escapeQuotes b"
    by (simp add: s escapeQuotes_append w)
  moreover have "escapeQuotes a = [] \<or> \<not> isWordChar (last (escapeQuotes a))"
    using A by (cases "a = []") (simp_all add: escapeQuotes_Nil last_escapeQuotes)
  moreover have "escapeQuotes b = [] \<or> \<not> isWordChar (hd (escapeQuotes b))"
    using B by (cases "b = []") (simp_all add: escapeQuotes_Nil hd_escapeQuotes)
  ultimately show ?thesis using can unfolding containsWholeWord_def by blast
qed

lemma containsWholeWord_embed:
  assumes "containsWholeWord kw s"
    and "pre \<noteq> []" and "\<not> isWordChar (last pre)"
    and "suf \<noteq> []" and "\<not> isWordChar (hd suf)"
  shows "containsWholeWord kw (pre @ s @ suf)"
proof -
  from assms(1) obtain a w b where s: "s = a @ w @ b"
    and can: "map canonicalize w = map canonicalize kw"
    and A: "a = [] \<or> \<not> isWordChar (last a)"
    and B: "b = [] \<or> \<not> isWordChar (hd b)"
    unfolding containsWholeWord_def by blast
  have "pre @ s @ suf = (pre @ a) @ w @ (b @ suf)" by (simp add: s)
  moreover have "\<not> isWordChar (last (pre @ a))"
    using A assms(3) by (auto simp: last_append)
  moreover have "\<not> isWordChar (hd (b @ suf))"
    using B assms(5) by (auto simp: hd_append)
  ultimately show ?thesis using can unfolding containsWholeWord_def by blast
qed

lemma trim_unchanged:
  assumes "s \<noteq> []" and "\<not> isWhiteSpace (hd s)" and "\<not> isWhiteSpace (last s)"
  shows "trim s = s"
proof -
  have "dropWhile isWhiteSpace s = s" using assms(2) by (simp add: dropWhile_eq_self_iff)
  moreover have "dropWhile isWhiteSpace (rev s) = rev s"
    using assms(3) by (simp add: dropWhile_eq_self_iff hd_rev)
  ultimately show ?thesis by (simp add: trim_def)
qed

lemma stripped_product_filter:
  "trim (removeDangerousChars (product_filter product))
     = ''products/any(p:p eq '' @ quote @ escapeQuotes (removeDangerousChars product) @ quote @ '')''"
proof -
  let ?t = "''products/any(p:p eq '' @ quote @ escapeQuotes (removeDangerousChars product) @ quote @ '')''"
  have "removeDangerousChars (product_filter product)
          = removeDangerousChars ''products/any(p:p eq '' @ removeDangerousChars quote
            @ removeDangerousChars (escapeQuotes product) @ removeDangerousChars quote
            @ removeDangerousChars '')''"
    by (simp add: product_filter_def removeDangerousChars_def)
  also have "\<dots> = ?t"
    by (simp add: removeDangerousChars_escapeQuotes) (simp add: removeDangerousChars_def quote_def)
  finally have r: "removeDangerousChars (product_filter product) = ?t" .
  have "trim ?t = ?t"
    by (rule trim_unchanged) (simp_all add: isWhiteSpace_def code_def)
  with r show ?thesis by simp
qed

lemma product_filter_rejected:
  assumes "containsBlockedKeyword (removeDangerousChars product)"
  shows "sanitizeODataFilter (product_filter product)
           = Inl (Error ''Invalid filter: potentially dangerous keywords detected'')"
proof -
  from assms obtain kw where kw: "kw \<in> set dangerousKeywords"
    and c: "containsWholeWord kw (removeDangerousChars product)"
    unfolding containsBlockedKeyword_def by blast
  have "containsWholeWord kw (escapeQuotes (removeDangerousChars product))"
    using wordy_keyword[OF kw] c by (rule containsWholeWord_escapeQuotes)
  then have "containsWholeWord kw
      ((''products/any(p:p eq '' @ quote) @ escapeQuotes (removeDangerousChars product) @ (quote @ '')''))"
    by (rule containsWholeWord_embed) (simp_all add: quote_def quote_not_word)
  then have "containsBlockedKeyword (trim (removeDangerousChars (product_filter product)))"
    using kw unfolding containsBlockedKeyword_def stripped_product_filter by auto
  then show ?thesis
    by (simp add: sanitizeODataFilter_def Let_def dangerousPatterns_test_iff)
qed

lemma keys_cache_store_subset:
  "set (cache_keys (cache_store c k v)) \<subseteq> insert k (set (cache_keys c))"
proof -
  have "set (cache_keys (cache_delete c' k')) \<subseteq> set (cache_keys c')" for c' k'
    by (auto simp: cache_keys_def cache_delete_def)
  moreover have "set (cache_keys (cache_set c k v)) \<subseteq> insert k (set (cache_keys c))"
    by (auto simp: keys_cache_set)
  ultimately show ?thesis
    unfolding cache_store_def Let_def by (auto split: if_splits)
qed

subsection \<open>The sanitizer on the filters of the samples\<close>

lemma status_sample_literal: "status_filter Launched = ''status eq 'Launched'' @ quote"
  by (simp add: status_filter_def quote_def)

lemma sanitize_status_sample:
  "sanitizeODataFilter (status_filter Launched) = Inr (''status eq 'Launched'' @ quote)"
  unfolding status_sample_literal by (rule example_accepted)

lemma phase_sample_literal:
  "phase_filter Public_Preview
     = ''releaseRings/any(r:r eq '' @ quote @ ''Public Preview'' @ quote @ '')''"
  by (simp add: phase_filter_def quote_def)

lemma sanitize_phase_sample:
  "sanitizeODataFilter (phase_filter Public_Preview)
     = Inr (''releaseRings/any(r:r eq '' @ quote @ ''Public Preview'' @ quote @ '')'')"
  unfolding phase_sample_literal
proof (rule sanitize_accepts)
  show "trim (removeDangerousChars (''releaseRings/any(r:r eq '' @ quote @ ''Public Preview'' @ quote @ '')''))
          = ''releaseRings/any(r:r eq '' @ quote @ ''Public Preview'' @ quote @ '')''"
    by (simp add: strip_eval)
  show "map canonicalize (''releaseRings/any(r:r eq '' @ quote @ ''Public Preview'' @ quote @ '')'')
          = ''RELEASERINGS/ANY(R:R EQ '' @ quote @ ''PUBLIC PREVIEW'' @ quote @ '')''"
    by code_simp
  show "\<not> scan (map isWordChar (''releaseRings/any(r:r eq '' @ quote @ ''Public Preview'' @ quote @ '')''))
            (''RELEASERINGS/ANY(R:R EQ '' @ quote @ ''PUBLIC PREVIEW'' @ quote @ '')'')"
    by (simp add: scan_eval)
qed

lemma date_sample_literal:
  "date_filter ''2025-10'' generalAvailability
     = ''generalAvailabilityDate eq '' @ quote @ ''2025-10'' @ quote"
  by (simp add: date_filter_def quote_def)

lemma sanitize_date_sample:
  "sanitizeODataFilter (date_filter ''2025-10'' generalAvailability)
     = Inr (''generalAvailabilityDate eq '' @ quote @ ''2025-10'' @ quote)"
  unfolding date_sample_literal
proof (rule sanitize_accepts)
  show "trim (removeDangerousChars (''generalAvailabilityDate eq '' @ quote @ ''2025-10'' @ quote))
          = ''generalAvailabilityDate eq '' @ quote @ ''2025-10'' @ quote"
    by (simp add: strip_eval)
  show "map canonicalize (''generalAvailabilityDate eq '' @ quote @ ''2025-10'' @ quote)
          = ''GENERALAVAILABILITYDATE EQ '' @ quote @ ''2025-10'' @ quote"
    by code_simp
  show "\<not> scan (map isWordChar (''generalAvailabilityDate eq '' @ quote @ ''2025-10'' @ quote))
            (''GENERALAVAILABILITYDATE EQ '' @ quote @ ''2025-10'' @ quote)"
    by (simp add: scan_eval)
qed

lemma product_sample_literal:
  "product_filter ''Microsoft Teams''
     = ''products/any(p:p eq '' @ quote @ ''Microsoft Teams'' @ quote @ '')''"
  by (simp add: product_filter_def escapeQuotes_def quote_def)

lemma sanitize_product_sample:
  "sanitizeODataFilter (product_filter ''Microsoft Teams'')
     = Inr (''products/any(p:p eq '' @ quote @ ''Microsoft Teams'' @ quote @ '')'')"
  unfolding product_sample_literal
proof (rule sanitize_accepts)
  show "trim (removeDangerousChars (''products/any(p:p eq '' @ quote @ ''Microsoft Teams'' @ quote @ '')''))
          = ''products/any(p:p eq '' @ quote @ ''Microsoft Teams'' @ quote @ '')''"
    by (simp add: strip_eval)
  show "map canonicalize (''products/any(p:p eq '' @ quote @ ''Microsoft Teams'' @ quote @ '')'')
          = ''PRODUCTS/ANY(P:P EQ '' @ quote @ ''MICROSOFT TEAMS'' @ quote @ '')''"
    by code_simp
  show "\<not> scan (map isWordChar (''products/any(p:p eq '' @ quote @ ''Microsoft Teams'' @ quote @ '')''))
            (''PRODUCTS/ANY(P:P EQ '' @ quote @ ''MICROSOFT TEAMS'' @ quote @ '')'')"
    by (simp add: scan_eval)
qed

lemma id_sample_literal:
  "id_filter ''497417''
     = ''id eq 497417''"
  by (simp add: id_filter_def quote_def)

lemma sanitize_id_sample:
  "sanitizeODataFilter (id_filter ''497417'')
     = Inr (''id eq 497417'')"
  unfolding id_sample_literal
proof (rule sanitize_accepts)
  show "trim (removeDangerousChars (''id eq 497417''))
          = ''id eq 497417''"
    by (simp add: strip_eval)
  show "map canonicalize (''id eq 497417'')
          = ''ID EQ 497417''"
    by code_simp
  show "\<not> scan (map isWordChar (''id eq 497417''))
            (''ID EQ 497417'')"
    by (simp add: scan_eval)
qed

lemma product_semicolon_literal:
  "product_filter ''update;s''
     = ''products/any(p:p eq '' @ quote @ ''update;s'' @ quote @ '')''"
  by (simp add: product_filter_def escapeQuotes_def quote_def)

lemma sanitize_product_semicolon:
  "sanitizeODataFilter (product_filter ''update;s'')
     = Inr (''products/any(p:p eq '' @ quote @ ''updates'' @ quote @ '')'')"
  unfolding product_semicolon_literal
proof (rule sanitize_accepts)
  show "trim (removeDangerousChars (''products/any(p:p eq '' @ quote @ ''update;s'' @ quote @ '')''))
          = ''products/any(p:p eq '' @ quote @ ''updates'' @ quote @ '')''"
    by (simp add: strip_eval)
  show "map canonicalize (''products/any(p:p eq '' @ quote @ ''updates'' @ quote @ '')'')
          = ''PRODUCTS/ANY(P:P EQ '' @ quote @ ''UPDATES'' @ quote @ '')''"
    by code_simp
  show "\<not> scan (map isWordChar (''products/any(p:p eq '' @ quote @ ''updates'' @ quote @ '')''))
            (''PRODUCTS/ANY(P:P EQ '' @ quote @ ''UPDATES'' @ quote @ '')'')"
    by (simp add: scan_eval)
qed

subsection \<open>Slices\<close>

lemma slice_window:
  assumes "0 \<le> a" and "0 \<le> n"
  shows "slice xs a (a + n) = take (nat n) (drop (nat a) xs)"
proof -
  let ?len = "int (length xs)"
  have k: "relativeIndex ?len a = min (nat a) (length xs)"
    using assms by (simp add: relativeIndex_def min_def) linarith
  have f: "relativeIndex ?len (a + n) = min (nat a + nat n) (length xs)"
    using assms by (simp add: relativeIndex_def min_def nat_add_distrib) linarith
  show ?thesis
  proof (cases "nat a \<le> length xs")
    case True
    then have "take (min (nat a + nat n) (length xs) - nat a) (drop (nat a) xs)
                 = take (nat n) (drop (nat a) xs)"
      by (cases "nat a + nat n \<le> length xs") (simp_all add: min_def)
    with True show ?thesis by (simp add: slice_def Let_def k f min_def)
  next
    case False
    then show ?thesis by (simp add: slice_def Let_def k f)
  qed
qed

lemma slice_zero: "slice xs 0 0 = []"
  by (simp add: slice_def relativeIndex_def)

lemma slice_negative: "n < 0 \<Longrightarrow> slice xs 0 n = except_last (nat (- n)) xs"
proof -
  assume n: "n < 0"
  have "nat (max (int (length xs) + n) 0) = length xs - nat (- n)"
    using n by linarith
  then show ?thesis using n by (simp add: slice_def relativeIndex_def except_last_def)
qed

lemma get_roadmap_items_success:
  assumes "fetchRoadmapItemsV2 flt w c = (Inr items, c')"
  shows "get_roadmap_items limit_arg offset_arg flt w c =
    (let validatedLimit = min (default_to 100 limit_arg) 1000;
         validatedOffset = max 0 (default_to 0 offset_arg);
         paginatedItems = slice items validatedOffset (validatedOffset + validatedLimit)
     in (success (JObject
           [(''total'', count items),
            (''returned'', count paginatedItems),
            (''offset'', JNumber validatedOffset),
            (''limit'', JNumber validatedLimit),
            (''hasMore'', JBoolean (validatedOffset + validatedLimit < int (length items))),
            (''items'', JItems paginatedItems)]), c'))"
  using assms by (simp add: get_roadmap_items_def Let_def MAX_RESULTS_LIMIT_def)

subsection \<open>Fetches and responses\<close>

lemma fetch_serving:
  assumes "sanitizeODataFilter f = Inr t" and "f \<noteq> []" and "t \<noteq> []"
  shows "fetchRoadmapItemsV2 (Some f) (serving items now) []
           = (Inr items, [(t, \<lparr>data = items, timestamp = now + 250, entry_filter = Some t\<rparr>)])"
  using assms
  by (simp add: fetchRoadmapItemsV2_def sanitizedFilter_of_def cacheKey_of_def request_of_def
      cache_lookup_def cache_get_def serving_def fetch_items_def fetchWithTimeout_def
      cache_store_def Let_def cache_size_def)

lemma fetch_serving_all:
  "fetchRoadmapItemsV2 None (serving items now) []
     = (Inr items, [(''all'', \<lparr>data = items, timestamp = now + 250, entry_filter = None\<rparr>)])"
  by (simp add: fetchRoadmapItemsV2_def sanitizedFilter_of_def cacheKey_of_def request_of_def
      cache_lookup_def cache_get_def serving_def fetch_items_def fetchWithTimeout_def
      cache_store_def Let_def cache_size_def)

lemma fetch_timing_out:
  assumes "sanitizeODataFilter f = Inr t" and "f \<noteq> []"
  shows "fetchRoadmapItemsV2 (Some f) (timing_out now) []
           = (Inl (Error ''Request timeout after 30000ms''), [])"
  using assms
  by (simp add: fetchRoadmapItemsV2_def sanitizedFilter_of_def cacheKey_of_def
      cache_lookup_def cache_get_def timing_out_def fetch_items_AbortError)

lemma limited_envelope_success:
  assumes "fetchRoadmapItemsV2 (Some flt) w c = (Inr items, c')"
  shows "limited_envelope echo flt limit w c =
           (success (JObject (echo @ [(''total'', count items),
                                      (''returned'', count (slice items 0 limit)),
                                      (''items'', JItems (slice items 0 limit))])), c')"
  using assms by (simp add: limited_envelope_def Let_def)

lemma limited_envelope_failure:
  assumes "fetchRoadmapItemsV2 (Some flt) w c = (Inl e, c')"
  shows "limited_envelope echo flt limit w c = (text_failure (''Error: '' @ message e), c')"
  using assms by (simp add: limited_envelope_def)

lemma slice_nonpositive: "n \<le> 0 \<Longrightarrow> slice xs 0 n = limited n xs"
  by (cases "n = 0") (simp_all add: limited_def slice_zero slice_negative)

lemma search_roadmap_success:
  assumes "fetchRoadmapItemsV2 None w c = (Inr items, c')"
  shows "search_roadmap keyword limit_arg w c =
           (success (JObject
              [(''keyword'', JString keyword),
               (''found'', count (slice (filter (matches_keyword (toLowerCase keyword)) items) 0
                                   (default_to 20 limit_arg))),
               (''items'', JItems (slice (filter (matches_keyword (toLowerCase keyword)) items) 0
                                     (default_to 20 limit_arg)))]), c')"
  using assms by (simp add: search_roadmap_def Let_def)

lemma filter_by_product_success:
  assumes "fetchRoadmapItemsV2 (Some (product_filter product)) w c = (Inr items, c')"
  shows "filter_by_product product limit_arg w c =
           (let limitedItems = slice items 0 (min (default_to 100 limit_arg) 1000)
            in (success (JObject
                 [(''product'', JString product),
                  (''total'', count items),
                  (''returned'', count limitedItems),
                  (''hasMore'', JBoolean (length limitedItems < length items)),
                  (''items'', JItems limitedItems)]), c'))"
  using assms by (simp add: filter_by_product_def Let_def MAX_RESULTS_LIMIT_def)

lemma status_sample_fetch:
  "fetchRoadmapItemsV2 (Some (status_filter Launched)) (serving items now) []
     = (Inr items, [(''status eq 'Launched'' @ quote,
          \<lparr>data = items, timestamp = now + 250,
           entry_filter = Some (''status eq 'Launched'' @ quote)\<rparr>)])"
  by (rule fetch_serving[OF sanitize_status_sample]) (simp_all add: status_filter_def quote_def)

lemma phase_sample_fetch:
  "fetchRoadmapItemsV2 (Some (phase_filter Public_Preview)) (serving items now) []
     = (Inr items, [(''releaseRings/any(r:r eq '' @ quote @ ''Public Preview'' @ quote @ '')'',
          \<lparr>data = items, timestamp = now + 250,
           entry_filter = Some (''releaseRings/any(r:r eq '' @ quote @ ''Public Preview'' @ quote @ '')'')\<rparr>)])"
  by (rule fetch_serving[OF sanitize_phase_sample]) (simp_all add: phase_filter_def quote_def)

lemma date_sample_fetch:
  "fetchRoadmapItemsV2 (Some (date_filter ''2025-10'' generalAvailability)) (serving items now) []
     = (Inr items, [(''generalAvailabilityDate eq '' @ quote @ ''2025-10'' @ quote,
          \<lparr>data = items, timestamp = now + 250,
           entry_filter = Some (''generalAvailabilityDate eq '' @ quote @ ''2025-10'' @ quote)\<rparr>)])"
  by (rule fetch_serving[OF sanitize_date_sample]) (simp_all add: date_filter_def quote_def)

lemma product_sample_fetch:
  "fetchRoadmapItemsV2 (Some (product_filter ''Microsoft Teams'')) (serving items now) []
     = (Inr items, [(''products/any(p:p eq '' @ quote @ ''Microsoft Teams'' @ quote @ '')'',
          \<lparr>data = items, timestamp = now + 250,
           entry_filter = Some (''products/any(p:p eq '' @ quote @ ''Microsoft Teams'' @ quote @ '')'')\<rparr>)])"
  by (rule fetch_serving[OF sanitize_product_sample]) (simp_all add: product_filter_def quote_def)

lemma id_sample_fetch:
  "fetchRoadmapItemsV2 (Some (id_filter ''497417'')) (serving items now) []
     = (Inr items, [(''id eq 497417'',
          \<lparr>data = items, timestamp = now + 250, entry_filter = Some ''id eq 497417''\<rparr>)])"
  by (rule fetch_serving[OF sanitize_id_sample]) (simp_all add: id_filter_def)

lemma product_semicolon_fetch:
  "fetchRoadmapItemsV2 (Some (product_filter ''update;s'')) (serving items now) []
     = (Inr items, [(''products/any(p:p eq '' @ quote @ ''updates'' @ quote @ '')'',
          \<lparr>data = items, timestamp = now + 250,
           entry_filter = Some (''products/any(p:p eq '' @ quote @ ''updates'' @ quote @ '')'')\<rparr>)])"
  by (rule fetch_serving[OF sanitize_product_semicolon]) (simp_all add: product_filter_def quote_def)

lemma counted_envelope_success:
  assumes "map_of props ''total'' = Some (count fetched)"
    and "map_of props ''items'' = Some (JItems page)"
    and "map_of props ''returned'' = Some (count page)"
  shows "counted_envelope fetched (success (JObject props))"
  using assms by (simp add: counted_envelope_def success_def envelope_field_def)

lemma envelope_fields_success: "envelope_fields (success (JObject props)) = map fst props"
  by (simp add: envelope_fields_def success_def)

subsection \<open>Pagination\<close>

text \<open>
  Claim C5. For every successful \<open>get_roadmap_items\<close> call with a limit in \<open>1..1000\<close> and
  an offset of at least 0, against a fetched sequence of \<open>n\<close> items, the returned items are
  exactly the slice \<open>[offset, offset + limit)\<close> of the sequence and \<open>hasMore\<close> is
  \<open>offset + limit < n\<close>. With limit 10 and offset 5 against 23 items it returns 10 items
  starting at index 5 with \<open>hasMore\<close> true; with offset 20 it returns 3 items with
  \<open>hasMore\<close> false.
\<close>

theorem get_roadmap_items_pagination:
  assumes "fetchRoadmapItemsV2 flt w c = (Inr items, c')"
    and "1 \<le> limit" and "limit \<le> 1000" and "0 \<le> offset"
  shows "get_roadmap_items (Some limit) (Some offset) flt w c =
           (success (JObject
              [(''total'', count items),
               (''returned'', count (take (nat limit) (drop (nat offset) items))),
               (''offset'', JNumber offset),
               (''limit'', JNumber limit),
               (''hasMore'', JBoolean (offset + limit < int (length items))),
               (''items'', JItems (take (nat limit) (drop (nat offset) items)))]), c')
         \<and> (\<forall>i < length (take (nat limit) (drop (nat offset) items)).
               take (nat limit) (drop (nat offset) items) ! i = items ! (nat offset + i))
         \<and> (length items = 23 \<and> limit = 10 \<and> offset = 5 \<longrightarrow>
               length (take (nat limit) (drop (nat offset) items)) = 10
               \<and> hd (take (nat limit) (drop (nat offset) items)) = items ! 5
               \<and> (offset + limit < int (length items)))
         \<and> (length items = 23 \<and> limit = 10 \<and> offset = 20 \<longrightarrow>
               length (take (nat limit) (drop (nat offset) items)) = 3
               \<and> \<not> (offset + limit < int (length items)))"
proof (intro conjI allI impI)
  have "slice items offset (offset + limit) = take (nat limit) (drop (nat offset) items)"
    using assms by (simp add: slice_window)
  then show "get_roadmap_items (Some limit) (Some offset) flt w c =
           (success (JObject
              [(''total'', count items),
               (''returned'', count (take (nat limit) (drop (nat offset) items))),
               (''offset'', JNumber offset),
               (''limit'', JNumber limit),
               (''hasMore'', JBoolean (offset + limit < int (length items))),
               (''items'', JItems (take (nat limit) (drop (nat offset) items)))]), c')"
    using assms by (simp add: get_roadmap_items_success default_to_def Let_def)
next
  fix i assume "i < length (take (nat limit) (drop (nat offset) items))"
  then have "i < nat limit" and "nat offset \<le> length items" by (simp, simp, linarith)
  then show "take (nat limit) (drop (nat offset) items) ! i = items ! (nat offset + i)"
    by simp
next
  assume a: "length items = 23 \<and> limit = 10 \<and> offset = 5"
  then show "length (take (nat limit) (drop (nat offset) items)) = 10" by simp
  from a have "take (nat limit) (drop (nat offset) items) \<noteq> []" by auto
  then have "hd (take (nat limit) (drop (nat offset) items))
               = take (nat limit) (drop (nat offset) items) ! 0"
    by (rule hd_conv_nth)
  also have "\<dots> = items ! 5" using a by simp
  finally show "hd (take (nat limit) (drop (nat offset) items)) = items ! 5" .
  from a show "offset + limit < int (length items)" by simp
next
  assume a: "length items = 23 \<and> limit = 10 \<and> offset = 20"
  then show "length (take (nat limit) (drop (nat offset) items)) = 3" by simp
  from a show "\<not> (offset + limit < int (length items))" by simp
qed

theorem get_roadmap_items_pagination_witness:
  "get_roadmap_items (Some 10) (Some 5) None (serving (sample_items 23) 0) [] =
     (success (JObject
        [(''total'', JNumber 23),
         (''returned'', JNumber 10),
         (''offset'', JNumber 5),
         (''limit'', JNumber 10),
         (''hasMore'', JBoolean True),
         (''items'', JItems (take 10 (drop 5 (sample_items 23))))]),
      [(''all'', \<lparr>data = sample_items 23, timestamp = 250, entry_filter = None\<rparr>)])
   \<and> hd (take 10 (drop 5 (sample_items 23))) = sample_items 23 ! 5
   \<and> get_roadmap_items (Some 10) (Some 20) None (serving (sample_items 23) 0) [] =
     (success (JObject
        [(''total'', JNumber 23),
         (''returned'', JNumber 3),
         (''offset'', JNumber 20),
         (''limit'', JNumber 10),
         (''hasMore'', JBoolean False),
         (''items'', JItems (take 10 (drop 20 (sample_items 23))))]),
      [(''all'', \<lparr>data = sample_items 23, timestamp = 250, entry_filter = None\<rparr>)])"
proof -
  have len: "length (sample_items 23) = 23" by (simp add: sample_items_def)
  note f = fetch_serving_all[of "sample_items 23" 0]
  have a: "(1::int) \<le> 10" "(10::int) \<le> 1000" "(0::int) \<le> 5" "(0::int) \<le> 20" by simp_all
  note A = get_roadmap_items_pagination[OF f a(1) a(2) a(3)]
  note B = get_roadmap_items_pagination[OF f a(1) a(2) a(4)]
  from A B show ?thesis by (simp add: len count_def)
qed

subsection \<open>Limits without bounds\<close>

text \<open>
  Claim C10. The handlers whose limit has no declared bounds (\<open>search_roadmap\<close>,
  \<open>filter_by_release_phase\<close>, \<open>filter_by_status\<close>, \<open>filter_by_date\<close>, \<open>filter_roadmap\<close>) accept
  a limit of zero and a negative limit: they answer with a success, which for the limit 0
  carries no item and for a negative limit \<open>n\<close> carries all fetched (for the search: all
  matching) items except the last \<open>|n|\<close>.
\<close>

theorem unbounded_limit:
  assumes "n \<le> 0"
  shows "(fetchRoadmapItemsV2 None w c = (Inr items, c') \<longrightarrow>
            search_roadmap keyword (Some n) w c =
              (success (JObject
                 [(''keyword'', JString keyword),
                  (''found'', count (limited n (filter (matches_keyword (toLowerCase keyword)) items))),
                  (''items'', JItems (limited n (filter (matches_keyword (toLowerCase keyword)) items)))]),
               c'))
       \<and> (fetchRoadmapItemsV2 (Some (phase_filter phase)) w c = (Inr items, c') \<longrightarrow>
            filter_by_release_phase phase (Some n) w c =
              (success (JObject
                 [(''phase'', JString (phase_string phase)),
                  (''total'', count items),
                  (''returned'', count (limited n items)),
                  (''items'', JItems (limited n items))]), c'))
       \<and> (fetchRoadmapItemsV2 (Some (status_filter st)) w c = (Inr items, c') \<longrightarrow>
            filter_by_status st (Some n) w c =
              (success (JObject
                 [(''status'', JString (status_string st)),
                  (''total'', count items),
                  (''returned'', count (limited n items)),
                  (''items'', JItems (limited n items))]), c'))
       \<and> (fetchRoadmapItemsV2 (Some (date_filter date (default_to generalAvailability dateType_arg))) w c
              = (Inr items, c') \<longrightarrow>
            filter_by_date date dateType_arg (Some n) w c =
              (success (JObject
                 [(''date'', JString date),
                  (''dateType'', JString (dateType_string (default_to generalAvailability dateType_arg))),
                  (''total'', count items),
                  (''returned'', count (limited n items)),
                  (''items'', JItems (limited n items))]), c'))
       \<and> (fetchRoadmapItemsV2 (Some flt) w c = (Inr items, c') \<longrightarrow>
            filter_roadmap flt (Some n) w c =
              (success (JObject
                 [(''filter'', JString flt),
                  (''total'', count items),
                  (''returned'', count (limited n items)),
                  (''items'', JItems (limited n items))]), c'))
       \<and> limited 0 items = []
       \<and> limited n items = (if n = 0 then [] else except_last (nat (- n)) items)
       \<and> except_last m items @ drop (length items - m) items = items
       \<and> length (except_last m items) = length items - m"
  using assms
  by (simp add: search_roadmap_success limited_envelope_success slice_nonpositive
      filter_by_release_phase_def filter_by_status_def filter_by_date_def filter_roadmap_def
      default_to_def Let_def limited_def except_last_def)

theorem unbounded_limit_witness:
  "search_roadmap ''copilot'' (Some (- 2)) (serving (sample_items 5) 0) [] =
     (success (JObject
        [(''keyword'', JString ''copilot''),
         (''found'', count (limited (- 2) (filter (matches_keyword (toLowerCase ''copilot'')) (sample_items 5)))),
         (''items'', JItems (limited (- 2) (filter (matches_keyword (toLowerCase ''copilot'')) (sample_items 5))))]),
      [(''all'', \<lparr>data = sample_items 5, timestamp = 250, entry_filter = None\<rparr>)])
   \<and> fst (filter_by_release_phase Public_Preview (Some (- 2)) (serving (sample_items 5) 0) []) =
       success (JObject
        [(''phase'', JString ''Public Preview''),
         (''total'', count (sample_items 5)),
         (''returned'', count (limited (- 2) (sample_items 5))),
         (''items'', JItems (limited (- 2) (sample_items 5)))])
   \<and> fst (filter_by_status Launched (Some (- 2)) (serving (sample_items 5) 0) []) =
       success (JObject
        [(''status'', JString ''Launched''),
         (''total'', count (sample_items 5)),
         (''returned'', count (limited (- 2) (sample_items 5))),
         (''items'', JItems (limited (- 2) (sample_items 5)))])
   \<and> fst (filter_by_date ''2025-10'' None (Some (- 2)) (serving (sample_items 5) 0) []) =
       success (JObject
        [(''date'', JString ''2025-10''),
         (''dateType'', JString ''generalAvailability''),
         (''total'', count (sample_items 5)),
         (''returned'', count (limited (- 2) (sample_items 5))),
         (''items'', JItems (limited (- 2) (sample_items 5)))])
   \<and> fst (filter_roadmap (status_filter Launched) (Some (- 2)) (serving (sample_items 5) 0) []) =
       success (JObject
        [(''filter'', JString (status_filter Launched)),
         (''total'', count (sample_items 5)),
         (''returned'', count (limited (- 2) (sample_items 5))),
         (''items'', JItems (limited (- 2) (sample_items 5)))])
   \<and> limited (- 2) (sample_items 5) = except_last 2 (sample_items 5)
   \<and> length (except_last 2 (sample_items 5)) = 3"
proof -
  have le: "(- 2 :: int) \<le> 0" by simp
  have dt: "default_to generalAvailability None = generalAvailability"
    by (simp add: default_to_def)
  note T = unbounded_limit[OF le, where w = "serving (sample_items 5) 0" and c = "[]"
      and items = "sample_items 5" and keyword = "''copilot''" and phase = Public_Preview
      and st = Launched and date = "''2025-10''" and dateType_arg = None
      and flt = "status_filter Launched" and m = 2]
  have len: "length (sample_items 5) = 5" by (simp add: sample_items_def)
  show ?thesis
    using T fetch_serving_all[of "sample_items 5" 0] phase_sample_fetch[of "sample_items 5" 0]
      status_sample_fetch[of "sample_items 5" 0] date_sample_fetch[of "sample_items 5" 0]
    by (simp add: dt len)
qed

subsection \<open>Success envelopes\<close>

text \<open>
  Claim C7, as amended. On success the six handlers \<open>get_roadmap_items\<close>,
  \<open>filter_by_product\<close>, \<open>filter_by_release_phase\<close>, \<open>filter_by_status\<close>, \<open>filter_by_date\<close> and
  \<open>filter_roadmap\<close> return an envelope with \<open>total\<close> (the count of all fetched items),
  \<open>returned\<close> (the count of the items it carries) and \<open>items\<close>; \<open>get_roadmap_items\<close> adds
  \<open>offset\<close>, \<open>limit\<close> and \<open>hasMore\<close>, and \<open>filter_by_product\<close> adds \<open>hasMore\<close>.
  \<open>get_roadmap_item\<close> returns the first fetched item itself, with no envelope, and
  \<open>search_roadmap\<close> returns a success whose envelope has \<open>items\<close>.
\<close>

theorem success_envelopes:
  "(fetchRoadmapItemsV2 flt w c = (Inr items, c') \<longrightarrow>
      counted_envelope items (fst (get_roadmap_items limit_arg offset_arg flt w c))
      \<and> envelope_fields (fst (get_roadmap_items limit_arg offset_arg flt w c))
          = [''total'', ''returned'', ''offset'', ''limit'', ''hasMore'', ''items''])
   \<and> (fetchRoadmapItemsV2 (Some (product_filter product)) w c = (Inr items, c') \<longrightarrow>
      counted_envelope items (fst (filter_by_product product limit_arg w c))
      \<and> envelope_fields (fst (filter_by_product product limit_arg w c))
          = [''product'', ''total'', ''returned'', ''hasMore'', ''items''])
   \<and> (fetchRoadmapItemsV2 (Some (phase_filter phase)) w c = (Inr items, c') \<longrightarrow>
      counted_envelope items (fst (filter_by_release_phase phase limit_arg w c))
      \<and> envelope_fields (fst (filter_by_release_phase phase limit_arg w c))
          = [''phase'', ''total'', ''returned'', ''items''])
   \<and> (fetchRoadmapItemsV2 (Some (status_filter st)) w c = (Inr items, c') \<longrightarrow>
      counted_envelope items (fst (filter_by_status st limit_arg w c))
      \<and> envelope_fields (fst (filter_by_status st limit_arg w c))
          = [''status'', ''total'', ''returned'', ''items''])
   \<and> (fetchRoadmapItemsV2 (Some (date_filter date (default_to generalAvailability dateType_arg))) w c
         = (Inr items, c') \<longrightarrow>
      counted_envelope items (fst (filter_by_date date dateType_arg limit_arg w c))
      \<and> envelope_fields (fst (filter_by_date date dateType_arg limit_arg w c))
          = [''date'', ''dateType'', ''total'', ''returned'', ''items''])
   \<and> (fetchRoadmapItemsV2 (Some custom) w c = (Inr items, c') \<longrightarrow>
      counted_envelope items (fst (filter_roadmap custom limit_arg w c))
      \<and> envelope_fields (fst (filter_roadmap custom limit_arg w c))
          = [''filter'', ''total'', ''returned'', ''items''])
   \<and> (fetchRoadmapItemsV2 (Some (id_filter ident)) w c = (Inr (item # others), c') \<longrightarrow>
      fst (get_roadmap_item ident w c) = success (JItem item))
   \<and> (fetchRoadmapItemsV2 None w c = (Inr items, c') \<longrightarrow>
      \<not> isError (fst (search_roadmap keyword limit_arg w c))
      \<and> ''items'' \<in> set (envelope_fields (fst (search_roadmap keyword limit_arg w c))))"
proof (intro conjI impI)
  assume "fetchRoadmapItemsV2 (Some (id_filter ident)) w c = (Inr (item # others), c')"
  then show "fst (get_roadmap_item ident w c) = success (JItem item)"
    by (simp add: get_roadmap_item_def)
qed (simp_all add: get_roadmap_items_success filter_by_product_success limited_envelope_success
      search_roadmap_success filter_by_release_phase_def filter_by_status_def filter_by_date_def
      filter_roadmap_def Let_def counted_envelope_success envelope_fields_success,
     simp add: success_def)

text \<open>
  The claim as stated fails for \<open>get_roadmap_item\<close>: its success carries the item, and
  no \<open>total\<close>, \<open>returned\<close> or \<open>items\<close>.
\<close>

theorem success_envelopes_counterexample:
  "fst (get_roadmap_item ''497417'' (serving [sample_item 0] 0) []) = success (JItem (sample_item 0))
   \<and> \<not> counted_envelope [sample_item 0]
         (fst (get_roadmap_item ''497417'' (serving [sample_item 0] 0) []))
   \<and> envelope_field (fst (get_roadmap_item ''497417'' (serving [sample_item 0] 0) [])) ''total''
       = None"
  by (simp add: get_roadmap_item_def id_sample_fetch counted_envelope_def envelope_field_def
      success_def)

theorem success_envelopes_witness:
  "counted_envelope (sample_items 5) (fst (get_roadmap_items None None None (serving (sample_items 5) 0) []))
   \<and> counted_envelope (sample_items 5)
        (fst (filter_by_product ''Microsoft Teams'' None (serving (sample_items 5) 0) []))
   \<and> counted_envelope (sample_items 5)
        (fst (filter_by_release_phase Public_Preview None (serving (sample_items 5) 0) []))
   \<and> counted_envelope (sample_items 5)
        (fst (filter_by_status Launched None (serving (sample_items 5) 0) []))
   \<and> counted_envelope (sample_items 5)
        (fst (filter_by_date ''2025-10'' None None (serving (sample_items 5) 0) []))
   \<and> counted_envelope (sample_items 5)
        (fst (filter_roadmap (status_filter Launched) None (serving (sample_items 5) 0) []))
   \<and> fst (get_roadmap_item ''497417'' (serving (sample_item 0 # sample_items 1) 0) [])
        = success (JItem (sample_item 0))
   \<and> ''items'' \<in> set (envelope_fields (fst (search_roadmap ''copilot'' None (serving (sample_items 5) 0) [])))"
proof -
  have dt: "default_to generalAvailability None = generalAvailability"
    by (simp add: default_to_def)
  note T = success_envelopes[where w = "serving (sample_items 5) 0" and c = "[]"
      and items = "sample_items 5" and flt = None and product = "''Microsoft Teams''"
      and phase = Public_Preview and st = Launched and date = "''2025-10''"
      and dateType_arg = None and custom = "status_filter Launched" and limit_arg = None
      and offset_arg = None and keyword = "''copilot''" and ident = "''none''"
      and item = "sample_item 0" and others = "[]"]
  note U = success_envelopes[where w = "serving (sample_item 0 # sample_items 1) 0" and c = "[]"
      and items = "[]" and flt = None and product = "[]"
      and phase = Public_Preview and st = Launched and date = "[]"
      and dateType_arg = None and custom = "[]" and limit_arg = None
      and offset_arg = None and keyword = "[]" and ident = "''497417''"
      and item = "sample_item 0" and others = "sample_items 1"]
  have 1: "fst (get_roadmap_item ''497417'' (serving (sample_item 0 # sample_items 1) 0) [])
        = success (JItem (sample_item 0))"
    using U id_sample_fetch[of "sample_item 0 # sample_items 1" 0] by simp
  show ?thesis
    using T 1 fetch_serving_all[of "sample_items 5" 0] phase_sample_fetch[of "sample_items 5" 0]
      status_sample_fetch[of "sample_items 5" 0] date_sample_fetch[of "sample_items 5" 0]
      product_sample_fetch[of "sample_items 5" 0]
    by (simp add: dt)
qed

subsection \<open>Error responses\<close>

text \<open>
  Claim C8. Every handler turns an error of the fetch into an error-flagged response, but
  only \<open>get_roadmap_items\<close> and \<open>filter_by_product\<close> build it with \<open>createMCPError\<close> and the
  call arguments. When the upstream request times out, \<open>filter_by_status\<close> with status
  \<open>Launched\<close> and limit 5 answers with the plain text \<open>Error: Request timeout after 30000ms\<close>
  and no arguments, where \<open>get_roadmap_items\<close> on the same failure answers with the
  message, the code and its arguments.
\<close>

theorem filter_by_status_timeout_reply:
  "filter_by_status Launched (Some 5) (timing_out 0) []
     = (text_failure ''Error: Request timeout after 30000ms'', [])
   \<and> get_roadmap_items (Some 5) None (Some (status_filter Launched)) (timing_out 0) []
     = (structured_failure
          (createMCPError ''Request timeout after 30000ms'' (- 32000)
             (JObject [(''filter'', JString (status_filter Launched)),
                       (''limit'', JNumber 5), (''offset'', JNumber 0)])), [])"
proof -
  have f: "fetchRoadmapItemsV2 (Some (status_filter Launched)) (timing_out 0) []
             = (Inl (Error ''Request timeout after 30000ms''), [])"
    by (rule fetch_timing_out[OF sanitize_status_sample]) (simp add: status_filter_def)
  show ?thesis
    by (simp add: filter_by_status_def limited_envelope_failure[OF f] get_roadmap_items_def f
        Let_def default_to_def object_def)
qed

subsection \<open>Escaped literals\<close>

lemma status_string_plain: "escapeQuotes (status_string st) = status_string st"
  by (cases st) (simp_all add: escapeQuotes_def)

lemma phase_string_plain: "escapeQuotes (phase_string ph) = phase_string ph"
  by (cases ph) (simp_all add: escapeQuotes_def)

text \<open>
  Claim C4, as amended. \<open>filter_by_product\<close> doubles every single quote of the product
  before it interpolates it between the quote delimiters, so that reading the literal back
  gives the product and stops at its closing quote; the product \<open>O'Brien's Tool\<close> gives a
  filter that carries \<open>O''Brien''s Tool\<close> between the delimiters. \<open>filter_by_status\<close> and
  \<open>filter_by_release_phase\<close> interpolate a label of the schema's enumeration, none of which
  has a single quote, so the interpolated label is its own escaped form.
  \<open>get_roadmap_item\<close> interpolates the id as it is, with no quote delimiters.
\<close>

theorem literal_escaping:
  "product_filter product = ''products/any(p:p eq '' @ quote @ escapeQuotes product @ quote @ '')''
   \<and> read_literal (escapeQuotes product @ quote @ '')'') = Some (product, '')'')
   \<and> length (filter (\<lambda>ch. ch = CHR 0x27) (escapeQuotes product))
        = 2 * length (filter (\<lambda>ch. ch = CHR 0x27) product)
   \<and> product_filter ''O'Brien's Tool''
        = ''products/any(p:p eq 'O'' @ quote @ quote @ ''Brien'' @ quote @ quote @ ''s Tool''
          @ quote @ '')''
   \<and> status_filter st = ''status eq '' @ quote @ escapeQuotes (status_string st) @ quote
   \<and> CHR 0x27 \<notin> set (status_string st)
   \<and> phase_filter ph = ''releaseRings/any(r:r eq '' @ quote @ escapeQuotes (phase_string ph) @ quote @ '')''
   \<and> CHR 0x27 \<notin> set (phase_string ph)
   \<and> id_filter ident = ''id eq '' @ ident"
proof (intro conjI)
  show "read_literal (escapeQuotes product @ quote @ '')'') = Some (product, '')'')"
    by (rule read_literal_escapeQuotes) simp
  show "length (filter (\<lambda>ch. ch = CHR 0x27) (escapeQuotes product))
        = 2 * length (filter (\<lambda>ch. ch = CHR 0x27) product)"
    by (induction product) (simp_all add: escapeQuotes_Cons escapeQuotes_Nil)
  show "product_filter ''O'Brien's Tool''
        = ''products/any(p:p eq 'O'' @ quote @ quote @ ''Brien'' @ quote @ quote @ ''s Tool''
          @ quote @ '')''"
    by (simp add: product_filter_def escapeQuotes_def quote_def)
  show "CHR 0x27 \<notin> set (status_string st)" by (cases st) simp_all
  show "CHR 0x27 \<notin> set (phase_string ph)" by (cases ph) simp_all
qed (simp_all add: product_filter_def status_filter_def phase_filter_def id_filter_def
      status_string_plain phase_string_plain)

text \<open>
  The claim as stated fails for \<open>get_roadmap_item\<close>: a single quote of the id reaches the
  filter undoubled.
\<close>

theorem literal_escaping_counterexample:
  "id_filter ''1'2'' = ''id eq 1'2''
   \<and> \<not> includes_str (id_filter ''1'2'') (escapeQuotes ''1'2'')"
  by (simp add: id_filter_def escapeQuotes_def)

theorem literal_escaping_witness:
  "read_literal (escapeQuotes ''O'Brien's Tool'' @ quote @ '')'') = Some (''O'Brien's Tool'', '')'')
   \<and> includes_str (product_filter ''O'Brien's Tool'')
         (quote @ ''O'' @ quote @ quote @ ''Brien'' @ quote @ quote @ ''s Tool'' @ quote)"
proof -
  note T = literal_escaping[where product = "''O'Brien's Tool''" and st = Launched
      and ph = Public_Preview and ident = "''497417''"]
  from T have 1: "read_literal (escapeQuotes ''O'Brien's Tool'' @ quote @ '')'')
      = Some (''O'Brien's Tool'', '')'')" by blast
  from T have "product_filter ''O'Brien's Tool''
        = ''products/any(p:p eq 'O'' @ quote @ quote @ ''Brien'' @ quote @ quote @ ''s Tool''
          @ quote @ '')''" by blast
  then have 2: "includes_str (product_filter ''O'Brien's Tool'')
         (quote @ ''O'' @ quote @ quote @ ''Brien'' @ quote @ quote @ ''s Tool'' @ quote)"
    by (simp add: quote_def)
  from 1 2 show ?thesis by blast
qed

text \<open>
  \<open>filter_by_date\<close> interpolates the date between quote delimiters as it is: a single
  quote of the date closes the literal early.
\<close>

lemma date_filter_keeps_quote:
  "date_filter ''2025' or '1' eq '1'' generalAvailability
     = ''generalAvailabilityDate eq '2025' or '1' eq '1'' @ quote
   \<and> read_literal (''2025' or '1' eq '1'' @ quote) = Some (''2025'', '' or '1' eq '1'' @ quote)"
  by (simp add: date_filter_def quote_def)

subsection \<open>Keywords in a product name\<close>

text \<open>
  Claim C9, as amended. Every filter passes through the sanitizer before it is a cache key
  or part of a request: a rejected filter ends the fetch with the cache unchanged, the only
  key the fetch can add is the key of the sanitized filter, and the only request whose
  outcome it reads is the request of the sanitized filter. For every \<open>filter_by_product\<close>
  call whose product, once its semicolons and backslashes are removed, contains a keyword
  of the blocklist as a whole word in any letter case, the call returns the error-flagged
  response of the sanitizer's error.
\<close>

theorem product_keyword_rejected:
  "(containsBlockedKeyword (removeDangerousChars product) \<longrightarrow>
      filter_by_product product limit_arg w c =
        (structured_failure
           (createMCPError ''Invalid filter: potentially dangerous keywords detected'' (- 32000)
              (JObject [(''product'', JString product),
                        (''limit'', JNumber (default_to 100 limit_arg))])), c))
   \<and> (sanitizedFilter_of flt = Inl e \<longrightarrow> fetchRoadmapItemsV2 flt w c = (Inl e, c))
   \<and> (sanitizedFilter_of flt = Inr sf \<longrightarrow>
        set (cache_keys (snd (fetchRoadmapItemsV2 flt w c)))
          \<subseteq> insert (cacheKey_of sf) (set (cache_keys c)))
   \<and> (sanitizedFilter_of flt = Inr sf \<and> network w' (request_of sf) = network w (request_of sf)
        \<and> clock_at_lookup w' = clock_at_lookup w \<and> clock_at_store w' = clock_at_store w \<longrightarrow>
        fetchRoadmapItemsV2 flt w' c = fetchRoadmapItemsV2 flt w c)"
proof (intro conjI impI)
  assume "containsBlockedKeyword (removeDangerousChars product)"
  then have "sanitizeODataFilter (product_filter product)
           = Inl (Error ''Invalid filter: potentially dangerous keywords detected'')"
    by (rule product_filter_rejected)
  moreover have "product_filter product \<noteq> []" by (simp add: product_filter_def)
  ultimately have "fetchRoadmapItemsV2 (Some (product_filter product)) w c
      = (Inl (Error ''Invalid filter: potentially dangerous keywords detected''), c)"
    by (simp add: fetchRoadmapItemsV2_def sanitizedFilter_of_def)
  then show "filter_by_product product limit_arg w c =
        (structured_failure
           (createMCPError ''Invalid filter: potentially dangerous keywords detected'' (- 32000)
              (JObject [(''product'', JString product),
                        (''limit'', JNumber (default_to 100 limit_arg))])), c)"
    by (simp add: filter_by_product_def Let_def object_def)
next
  assume "sanitizedFilter_of flt = Inl e"
  then show "fetchRoadmapItemsV2 flt w c = (Inl e, c)" by (rule fetch_rejected)
next
  assume "sanitizedFilter_of flt = Inr sf"
  then show "set (cache_keys (snd (fetchRoadmapItemsV2 flt w c)))
          \<subseteq> insert (cacheKey_of sf) (set (cache_keys c))"
    using keys_cache_store_subset
    by (auto simp: fetchRoadmapItemsV2_def Let_def split: option.splits sum.splits)
next
  assume "sanitizedFilter_of flt = Inr sf \<and> network w' (request_of sf) = network w (request_of sf)
        \<and> clock_at_lookup w' = clock_at_lookup w \<and> clock_at_store w' = clock_at_store w"
  then have "sanitizedFilter_of flt = Inr sf"
    and "network w' (request_of sf) = network w (request_of sf)"
    and "clock_at_lookup w' = clock_at_lookup w" and "clock_at_store w' = clock_at_store w"
    by simp_all
  then show "fetchRoadmapItemsV2 flt w' c = fetchRoadmapItemsV2 flt w c"
    by (simp add: fetchRoadmapItemsV2_def Let_def split: option.splits sum.splits)
qed

text \<open>
  The claim as stated fails for the product \<open>update;s\<close>: it contains \<open>update\<close> as a whole
  word, but the sanitizer removes the semicolon first and tests \<open>updates\<close>, so the call
  succeeds.
\<close>

lemma whole_word_update_semicolon: "containsWholeWord ''update'' ''update;s''"
  unfolding containsWholeWord_def
  by (rule exI[of _ "[]"], rule exI[of _ "''update''"], rule exI[of _ "'';s''"])
     (simp add: isWordChar_def code_def)

theorem product_keyword_rejected_counterexample:
  "containsWholeWord ''update'' ''update;s''
   \<and> ''update'' \<in> set dangerousKeywords
   \<and> \<not> isError (fst (filter_by_product ''update;s'' None (serving (sample_items 2) 0) []))"
  using whole_word_update_semicolon
  by (simp add: filter_by_product_success[OF product_semicolon_fetch] Let_def success_def
      dangerousKeywords_def)

theorem product_keyword_rejected_witness:
  "containsBlockedKeyword (removeDangerousChars ''Update'')
   \<and> fst (filter_by_product ''Update'' None (serving (sample_items 2) 0) []) =
        structured_failure
           (createMCPError ''Invalid filter: potentially dangerous keywords detected'' (- 32000)
              (JObject [(''product'', JString ''Update''), (''limit'', JNumber 100)]))
   \<and> fetchRoadmapItemsV2 (Some ''status eq 'x'; DROP'') (serving (sample_items 2) 0) []
        = (Inl (Error ''Invalid filter: potentially dangerous keywords detected''), [])
   \<and> set (cache_keys (snd (fetchRoadmapItemsV2 None (serving (sample_items 2) 0) [])))
        \<subseteq> insert ''all'' {}
   \<and> fetchRoadmapItemsV2 None (serving (sample_items 2) 0) []
        = fetchRoadmapItemsV2 None (selective (sample_items 2) 0) []"
proof -
  have "containsWholeWord ''update'' ''Update''"
    unfolding containsWholeWord_def
    by (rule exI[of _ "[]"], rule exI[of _ "''Update''"], rule exI[of _ "[]"]) code_simp
  then have b: "containsBlockedKeyword (removeDangerousChars ''Update'')"
    by (auto simp: containsBlockedKeyword_def removeDangerousChars_def dangerousKeywords_def)
  have rej: "sanitizedFilter_of (Some ''status eq 'x'; DROP'')
      = Inl (Error ''Invalid filter: potentially dangerous keywords detected'')"
    using example_rejected by (simp add: sanitizedFilter_of_def)
  have ok: "sanitizedFilter_of None = Inr None" by (simp add: sanitizedFilter_of_def)
  note T = product_keyword_rejected[where product = "''Update''" and limit_arg = None
      and w = "serving (sample_items 2) 0" and c = "[]" and flt = "Some ''status eq 'x'; DROP''"
      and e = "Error ''Invalid filter: potentially dangerous keywords detected''"
      and sf = None and w' = "serving (sample_items 2) 0"]
  note U = product_keyword_rejected[where product = "''Update''" and limit_arg = None
      and w = "serving (sample_items 2) 0" and c = "[]" and flt = None
      and e = "Error []" and sf = None and w' = "timing_out 0"]
  note V = product_keyword_rejected[where product = "''Update''" and limit_arg = None
      and w = "selective (sample_items 2) 0" and c = "[]" and flt = None
      and e = "Error []" and sf = None and w' = "serving (sample_items 2) 0"]
  from T b have 1: "fst (filter_by_product ''Update'' None (serving (sample_items 2) 0) []) =
        structured_failure
           (createMCPError ''Invalid filter: potentially dangerous keywords detected'' (- 32000)
              (JObject [(''product'', JString ''Update''), (''limit'', JNumber 100)]))"
    by (simp add: default_to_def)
  from T rej have 2: "fetchRoadmapItemsV2 (Some ''status eq 'x'; DROP'') (serving (sample_items 2) 0) []
        = (Inl (Error ''Invalid filter: potentially dangerous keywords detected''), [])"
    by blast
  from U ok have 3: "set (cache_keys (snd (fetchRoadmapItemsV2 None (serving (sample_items 2) 0) [])))
        \<subseteq> insert ''all'' {}"
    by (simp add: cacheKey_of_def cache_keys_def)
  from V ok have 4: "fetchRoadmapItemsV2 None (serving (sample_items 2) 0) []
        = fetchRoadmapItemsV2 None (selective (sample_items 2) 0) []"
    by (simp add: serving_def selective_def request_of_def)
  from b 1 2 3 4 show ?thesis by blast
qed

end
